theory Spec2Isabelle
  imports Main "HOL-Library.Sublist"
begin

section \<open>JavaScript strings\<close>

text \<open>
  A JavaScript string is a sequence of UTF-16 code units. The model uses \<^typ>\<open>string\<close>, whose
  characters are the code units below 256 (ASCII and the Latin-1 supplement); every
  function below is the library function of the same name restricted to such strings.
\<close>

definition code :: "char \<Rightarrow> nat" where
  "code c = of_char c"

text \<open>The class \<^verbatim>\<open>\s\<close>, which is also what \<^verbatim>\<open>trim\<close> strips: TAB, LF, VT, FF, CR, SP, NBSP.\<close>

definition isWhiteSpace :: "char \<Rightarrow> bool" where
  "isWhiteSpace c = (code c = 9 \<or> code c = 10 \<or> code c = 11 \<or> code c = 12 \<or> code c = 13
     \<or> code c = 32 \<or> code c = 160)"

text \<open>The class \<^verbatim>\<open>\d\<close>.\<close>

definition isDigit :: "char \<Rightarrow> bool" where
  "isDigit c = (48 \<le> code c \<and> code c \<le> 57)"

text \<open>A character range \<^verbatim>\<open>[a-b]\<close> of a regular expression.\<close>

definition inRange :: "char \<Rightarrow> char \<Rightarrow> char \<Rightarrow> bool" where
  "inRange a b c = (code a \<le> code c \<and> code c \<le> code b)"

text \<open>The class \<^verbatim>\<open>\w\<close>: \<^verbatim>\<open>[A-Za-z0-9_]\<close>.\<close>

definition isWordChar :: "char \<Rightarrow> bool" where
  "isWordChar c = (inRange CHR ''A'' CHR ''Z'' c \<or> inRange CHR ''a'' CHR ''z'' c
     \<or> isDigit c \<or> c = CHR ''_'')"

text \<open>
  \<^verbatim>\<open>toLowerCase\<close> on one code unit: A to Z, and the Latin-1 capitals 0xC0 to 0xDE
  (0xD7, the multiplication sign, has no case) move up by 32.
\<close>

definition toLowerChar :: "char \<Rightarrow> char" where
  "toLowerChar c =
     (if (65 \<le> code c \<and> code c \<le> 90) \<or> (192 \<le> code c \<and> code c \<le> 222 \<and> code c \<noteq> 215)
      then char_of (code c + 32) else c)"

definition toLowerCase :: "string \<Rightarrow> string" where
  "toLowerCase s = map toLowerChar s"

definition trimStart :: "string \<Rightarrow> string" where
  "trimStart s = dropWhile isWhiteSpace s"

definition trimEnd :: "string \<Rightarrow> string" where
  "trimEnd s = rev (dropWhile isWhiteSpace (rev s))"

definition trim :: "string \<Rightarrow> string" where
  "trim s = trimEnd (trimStart s)"

text \<open>
  \<^verbatim>\<open>s.split(sep)\<close> for a separator of one character: the segments between the separators,
  empty ones included; the empty string gives one empty segment.
\<close>

fun split :: "char \<Rightarrow> string \<Rightarrow> string list" where
  "split sep [] = [[]]"
| "split sep (c # cs) =
     (if c = sep then [] # split sep cs
      else (case split sep cs of [] \<Rightarrow> [[c]] | w # ws \<Rightarrow> (c # w) # ws))"

definition padStart :: "nat \<Rightarrow> char \<Rightarrow> string \<Rightarrow> string" where
  "padStart n c s = replicate (n - length s) c @ s"

text \<open>A value thrown by JavaScript code: an \<^verbatim>\<open>Error\<close> with its message, or a value that is
  not an instance of \<^verbatim>\<open>Error\<close>.\<close>

datatype thrown = Error string | NonError

text \<open>The number a string of decimal digits denotes.\<close>

definition digit_val :: "char \<Rightarrow> nat" where
  "digit_val c = code c - 48"

definition decimal :: "string \<Rightarrow> nat" where
  "decimal s = foldl (\<lambda>a c. 10 * a + digit_val c) 0 s"

text \<open>\<^verbatim>\<open>parseInt(s, 10)\<close> on a string that starts with its digits: the number the leading
  digits denote, NaN (\<open>None\<close>) when there is none.\<close>

definition parseInt :: "string \<Rightarrow> int option" where
  "parseInt s =
     (let ds = takeWhile isDigit s in if ds = [] then None else Some (int (decimal ds)))"

text \<open>The decimal text of a counter, as a template literal prints a non-negative integer.\<close>

fun numberToString :: "nat \<Rightarrow> string" where
  "numberToString n =
     (if n < 10 then [char_of (48 + n)]
      else numberToString (n div 10) @ [char_of (48 + n mod 10)])"

declare numberToString.simps [simp del]


lemma decimal_snoc: "decimal (s @ [c]) = 10 * decimal s + digit_val c"
  by (simp add: decimal_def)

lemma digit_val_char_of: "d < 10 \<Longrightarrow> digit_val (char_of (48 + d)) = d"
  by (simp add: digit_val_def code_def of_char_of)

lemma decimal_numberToString: "decimal (numberToString n) = n"
proof (induction n rule: numberToString.induct)
  case (1 n)
  show ?case
  proof (cases "n < 10")
    case True
    then show ?thesis
      by (simp add: numberToString.simps [of n] decimal_def digit_val_char_of)
  next
    case False
    with 1 show ?thesis
      by (simp add: numberToString.simps [of n] decimal_snoc digit_val_char_of)
  qed
qed

lemma numberToString_inject: "(numberToString m = numberToString n) = (m = n)"
  by (metis decimal_numberToString)

section \<open>The Date built-in\<close>

text \<open>
  The time value of a \<^verbatim>\<open>Date\<close> is an integral number of milliseconds since the epoch, or
  NaN (\<open>None\<close>). The functions are the abstract operations of the language standard,
  with their names.
\<close>

definition msPerDay :: int where
  "msPerDay = 86400000"

definition Day :: "int \<Rightarrow> int" where
  "Day t = t div msPerDay"

definition DaysInYear :: "int \<Rightarrow> int" where
  "DaysInYear y =
     (if y mod 4 \<noteq> 0 then 365 else if y mod 100 \<noteq> 0 then 366
      else if y mod 400 \<noteq> 0 then 365 else 366)"

definition DayFromYear :: "int \<Rightarrow> int" where
  "DayFromYear y = 365 * (y - 1970) + (y - 1969) div 4 - (y - 1901) div 100 + (y - 1601) div 400"

definition TimeFromYear :: "int \<Rightarrow> int" where
  "TimeFromYear y = msPerDay * DayFromYear y"

lemma div_step:
  fixes a k :: int
  assumes "0 < k"
  shows "(a + 1) div k = a div k + (if (a + 1) mod k = 0 then 1 else 0)"
proof -
  have a: "a = k * (a div k) + a mod k" by simp
  have r: "0 \<le> a mod k" "a mod k < k" using assms by simp_all
  show ?thesis
  proof (cases "a mod k + 1 = k")
    case True
    have "a + 1 = k * (a div k) + (a mod k + 1)" using a by simp
    also have "\<dots> = k * (a div k + 1)" unfolding True by (simp add: algebra_simps)
    finally have e: "a + 1 = k * (a div k + 1)" .
    have "(a + 1) div k = a div k + 1" unfolding e using assms by simp
    moreover have "(a + 1) mod k = 0" unfolding e by simp
    ultimately show ?thesis by simp
  next
    case False
    then have lt: "a mod k + 1 < k" using r by simp
    have e: "a + 1 = k * (a div k) + (a mod k + 1)" using a by simp
    have "(a + 1) div k = a div k"
      by (rule int_div_pos_eq [OF e]) (use r lt in simp_all)
    moreover have "(a + 1) mod k = a mod k + 1"
      by (rule int_mod_pos_eq [OF e]) (use r lt in simp_all)
    ultimately show ?thesis using r by simp
  qed
qed


lemma mod_shift: "(k::int) dvd c \<Longrightarrow> ((y - c) mod k = 0) = (y mod k = 0)"
  by (metis mod_eq_0_iff_dvd mod_eq_dvd_iff)

lemma mod_100_4: "(y::int) mod 100 = 0 \<Longrightarrow> y mod 4 = 0"
  by auto

lemma mod_400_100: "(y::int) mod 400 = 0 \<Longrightarrow> y mod 100 = 0"
  by auto

lemma leap_div_steps:
  fixes y :: int
  shows "(y + 1 - 1969) div 4 = (y - 1969) div 4 + (if y mod 4 = 0 then 1 else 0)"
    and "(y + 1 - 1901) div 100 = (y - 1901) div 100 + (if y mod 100 = 0 then 1 else 0)"
    and "(y + 1 - 1601) div 400 = (y - 1601) div 400 + (if y mod 400 = 0 then 1 else 0)"
proof -
  have a: "y + 1 - 1969 = (y - 1969) + 1" "y + 1 - 1901 = (y - 1901) + 1"
    "y + 1 - 1601 = (y - 1601) + 1" by simp_all
  have b: "y - 1969 + 1 = y - 1968" "y - 1901 + 1 = y - 1900" "y - 1601 + 1 = y - 1600"
    by simp_all
  show "(y + 1 - 1969) div 4 = (y - 1969) div 4 + (if y mod 4 = 0 then 1 else 0)"
    unfolding a using div_step [of 4 "y - 1969"] mod_shift [of 4 1968 y]
    by (simp only: b) simp
  show "(y + 1 - 1901) div 100 = (y - 1901) div 100 + (if y mod 100 = 0 then 1 else 0)"
    unfolding a using div_step [of 100 "y - 1901"] mod_shift [of 100 1900 y]
    by (simp only: b) simp
  show "(y + 1 - 1601) div 400 = (y - 1601) div 400 + (if y mod 400 = 0 then 1 else 0)"
    unfolding a using div_step [of 400 "y - 1601"] mod_shift [of 400 1600 y]
    by (simp only: b) simp
qed

lemma DayFromYear_Suc: "DayFromYear (y + 1) = DayFromYear y + DaysInYear y"
  unfolding DayFromYear_def DaysInYear_def leap_div_steps
  using mod_100_4 [of y] mod_400_100 [of y] by auto


text \<open>
  \<^verbatim>\<open>YearFromTime(t)\<close> is the largest year \<open>y\<close> with \<open>TimeFromYear y \<le> t\<close>. It is found by
  counting up from a year that starts no later than \<open>t\<close>: a year has at most 366 days
  after 1970 and at least 365 before.
\<close>

function year_upto :: "int \<Rightarrow> int \<Rightarrow> int" where
  "year_upto y t = (if TimeFromYear (y + 1) \<le> t then year_upto (y + 1) t else y)"
  by pat_completeness auto
termination
proof (relation "measure (\<lambda>(y, t). nat (t + 1 - TimeFromYear (y + 1)))")
  show "wf (measure (\<lambda>(y, t). nat (t + 1 - TimeFromYear (y + 1))))" by simp
next
  fix y t :: int
  assume "TimeFromYear (y + 1) \<le> t"
  moreover have "DayFromYear (y + 1 + 1) > DayFromYear (y + 1)"
    unfolding DayFromYear_Suc [of "y + 1"] by (simp add: DaysInYear_def)
  then have "TimeFromYear (y + 1 + 1) > TimeFromYear (y + 1)"
    by (simp add: TimeFromYear_def msPerDay_def)
  ultimately show "((y + 1, t), (y, t)) \<in> measure (\<lambda>(y, t). nat (t + 1 - TimeFromYear (y + 1)))"
    by simp
qed

declare year_upto.simps [simp del]

definition YearFromTime :: "int \<Rightarrow> int" where
  "YearFromTime t =
     year_upto (1970 + (if 0 \<le> Day t then Day t div 366 else Day t div 365)) t"

definition InLeapYear :: "int \<Rightarrow> int" where
  "InLeapYear t = (if DaysInYear (YearFromTime t) = 366 then 1 else 0)"

definition DayWithinYear :: "int \<Rightarrow> int" where
  "DayWithinYear t = Day t - DayFromYear (YearFromTime t)"

definition MonthFromTime :: "int \<Rightarrow> int" where
  "MonthFromTime t =
     (let d = DayWithinYear t; l = InLeapYear t in
      if d < 31 then 0 else if d < 59 + l then 1 else if d < 90 + l then 2
      else if d < 120 + l then 3 else if d < 151 + l then 4 else if d < 181 + l then 5
      else if d < 212 + l then 6 else if d < 243 + l then 7 else if d < 273 + l then 8
      else if d < 304 + l then 9 else if d < 334 + l then 10 else 11)"

definition DateFromTime :: "int \<Rightarrow> int" where
  "DateFromTime t =
     (let d = DayWithinYear t; l = InLeapYear t; m = MonthFromTime t in
      if m = 0 then d + 1 else if m = 1 then d - 30 else if m = 2 then d - 58 - l
      else if m = 3 then d - 89 - l else if m = 4 then d - 119 - l
      else if m = 5 then d - 150 - l else if m = 6 then d - 180 - l
      else if m = 7 then d - 211 - l else if m = 8 then d - 242 - l
      else if m = 9 then d - 272 - l else if m = 10 then d - 303 - l else d - 333 - l)"

text \<open>The day within the year on which month \<open>mn\<close> (0 to 11) starts, the lower bounds of
  the table of \<^verbatim>\<open>MonthFromTime\<close>; \<open>l\<close> is 1 in a leap year.\<close>

definition month_start :: "int \<Rightarrow> int \<Rightarrow> int" where
  "month_start mn l =
     (if mn = 0 then 0 else if mn = 1 then 31 else if mn = 2 then 59 + l
      else if mn = 3 then 90 + l else if mn = 4 then 120 + l else if mn = 5 then 151 + l
      else if mn = 6 then 181 + l else if mn = 7 then 212 + l else if mn = 8 then 243 + l
      else if mn = 9 then 273 + l else if mn = 10 then 304 + l else 334 + l)"

text \<open>
  \<^verbatim>\<open>MakeDay(year, month, date)\<close>: with \<open>ym\<close> and \<open>mn\<close> the year and month after carrying
  whole years out of \<open>month\<close>, the day number of the first of that month, plus \<open>date - 1\<close>.
\<close>

definition MakeDay :: "int \<Rightarrow> int \<Rightarrow> int \<Rightarrow> int" where
  "MakeDay year month date' =
     (let ym = year + month div 12; mn = month mod 12;
          t = TimeFromYear ym + msPerDay * month_start mn (if DaysInYear ym = 366 then 1 else 0)
      in Day t + date' - 1)"

definition MakeDate :: "int \<Rightarrow> int \<Rightarrow> int" where
  "MakeDate day time' = day * msPerDay + time'"

definition TimeClip :: "int \<Rightarrow> int option" where
  "TimeClip t = (if \<bar>t\<bar> > 8640000000000000 then None else Some t)"

definition MakeFullYear :: "int \<Rightarrow> int" where
  "MakeFullYear y = (if 0 \<le> y \<and> y \<le> 99 then 1900 + y else y)"

text \<open>\<^verbatim>\<open>Date.UTC(year, month, date)\<close>; the time of day is 0.\<close>

definition Date_UTC :: "int \<Rightarrow> int \<Rightarrow> int \<Rightarrow> int option" where
  "Date_UTC year month date' = TimeClip (MakeDate (MakeDay (MakeFullYear year) month date') 0)"

section \<open>The Event model\<close>

text \<open>
  The sources hold two revisions of the event model. The model follows the later one,
  whose hook \<^verbatim>\<open>eventSchema.pre('validate', ...)\<close> resolves slug collisions; the earlier one
  has the same date and time blocks in a \<^verbatim>\<open>pre('save')\<close> hook. The queries of the hook
  are taken to succeed: a storage failure while it runs is outside the model.

  The interface \<^verbatim>\<open>IEvent\<close>. A field that is \<^verbatim>\<open>undefined\<close> on the document is \<open>None\<close>.
  The timestamps are wall-clock values and are left out.
\<close>

record IEvent =
  title :: "string option"
  slug :: "string option"
  description :: "string option"
  overview :: "string option"
  image' :: "string option"
  venue :: "string option"
  location :: "string option"
  date :: "string option"
  time :: "string option"
  mode :: "string option"
  audience :: "string option"
  agenda :: "string list"
  organizer :: "string option"
  tags :: "string list"

subsection \<open>Time normalization\<close>

text \<open>
  \<^verbatim>\<open>timeRegex = /^([0-1]?[0-9]|2[0-3]):[0-5][0-9]$/\<close> and its \<^verbatim>\<open>test\<close>. The pattern is
  anchored at both ends and has no flags, so it matches a whole string of four characters
  (the optional \<^verbatim>\<open>[0-1]\<close> absent) or of five.
\<close>

fun timeRegex_test :: "string \<Rightarrow> bool" where
  "timeRegex_test [h, c, m1, m2] =
     (inRange CHR ''0'' CHR ''9'' h \<and> c = CHR '':''
      \<and> inRange CHR ''0'' CHR ''5'' m1 \<and> inRange CHR ''0'' CHR ''9'' m2)"
| "timeRegex_test [h1, h2, c, m1, m2] =
     (((inRange CHR ''0'' CHR ''1'' h1 \<and> inRange CHR ''0'' CHR ''9'' h2)
        \<or> (h1 = CHR ''2'' \<and> inRange CHR ''0'' CHR ''3'' h2))
      \<and> c = CHR '':''
      \<and> inRange CHR ''0'' CHR ''5'' m1 \<and> inRange CHR ''0'' CHR ''9'' m2)"
| "timeRegex_test _ = False"

text \<open>\<^verbatim>\<open>String(v)\<close> for a field that may be \<^verbatim>\<open>undefined\<close>, as \<^verbatim>\<open>RegExp.test\<close> and
  a template literal convert their argument.\<close>

definition toString :: "string option \<Rightarrow> string" where
  "toString v = (case v of None \<Rightarrow> ''undefined'' | Some s \<Rightarrow> s)"

text \<open>
  The body of \<^verbatim>\<open>if (doc.isModified?.('time')) { ... }\<close>, on the value of \<^verbatim>\<open>doc.time\<close>:
  the error thrown, or the string stored back. \<^verbatim>\<open>split(':')\<close> always has a first
  segment; a missing second one is \<^verbatim>\<open>undefined\<close> in the template literal.
\<close>

definition normalize_time :: "string option \<Rightarrow> thrown + string" where
  "normalize_time t =
     (if \<not> timeRegex_test (toString t) then Inl (Error ''Time must be in HH:MM format'')
      else (case split CHR '':'' (toString t) of
              hours # minutes # _ \<Rightarrow> Inr (padStart 2 CHR ''0'' hours @ '':'' @ minutes)
            | [hours] \<Rightarrow> Inr (padStart 2 CHR ''0'' hours @ '':'' @ ''undefined'')
            | [] \<Rightarrow> Inr ('':'' @ ''undefined'')))"

subsection \<open>Date normalization\<close>

text \<open>
  \<^verbatim>\<open>dateRegex = /^(\d{4})-(0[1-9]|1[0-2])-(0[1-9]|[12]\d|3[01])$/\<close> and \<^verbatim>\<open>match\<close>:
  the whole match and the three groups, or \<open>None\<close> for \<^verbatim>\<open>null\<close>. The pattern is anchored at
  both ends and every alternative has a fixed width, so it matches strings of ten
  characters only.
\<close>

fun dateRegex_match :: "string \<Rightarrow> (string \<times> string \<times> string \<times> string) option" where
  "dateRegex_match [y1, y2, y3, y4, s1, m1, m2, s2, d1, d2] =
     (if isDigit y1 \<and> isDigit y2 \<and> isDigit y3 \<and> isDigit y4
         \<and> s1 = CHR ''-''
         \<and> ((m1 = CHR ''0'' \<and> inRange CHR ''1'' CHR ''9'' m2)
              \<or> (m1 = CHR ''1'' \<and> inRange CHR ''0'' CHR ''2'' m2))
         \<and> s2 = CHR ''-''
         \<and> ((d1 = CHR ''0'' \<and> inRange CHR ''1'' CHR ''9'' d2)
              \<or> ((d1 = CHR ''1'' \<or> d1 = CHR ''2'') \<and> isDigit d2)
              \<or> (d1 = CHR ''3'' \<and> (d2 = CHR ''0'' \<or> d2 = CHR ''1'')))
      then Some ([y1, y2, y3, y4, s1, m1, m2, s2, d1, d2], [y1, y2, y3, y4], [m1, m2], [d1, d2])
      else None)"
| "dateRegex_match _ = None"

definition date_error :: thrown where
  "date_error = Error ''Invalid date format - expected YYYY-MM-DD''"

text \<open>
  The body of \<^verbatim>\<open>if (doc.isModified?.('date')) { ... }\<close>, on the value of \<^verbatim>\<open>doc.date\<close>:
  the error thrown, or the string stored back. An \<^verbatim>\<open>undefined\<close> date has no \<^verbatim>\<open>match\<close>.
\<close>

definition normalize_date :: "string option \<Rightarrow> thrown + string" where
  "normalize_date d =
     (case (case d of None \<Rightarrow> None | Some s \<Rightarrow> dateRegex_match s) of
        None \<Rightarrow> Inl date_error
      | Some (match0, match1, match2, match3) \<Rightarrow>
          (case (parseInt match1, parseInt match2, parseInt match3) of
             (Some year, Some month, Some day) \<Rightarrow>
               (case Date_UTC year (month - 1) day of
                  None \<Rightarrow> Inl date_error
                | Some parsedDate \<Rightarrow>
                    if YearFromTime parsedDate \<noteq> year
                       \<or> MonthFromTime parsedDate \<noteq> month - 1
                       \<or> DateFromTime parsedDate \<noteq> day
                    then Inl date_error else Inr match0)
           | _ \<Rightarrow> Inl date_error))"

subsection \<open>Slug assignment\<close>

text \<open>
  \<^verbatim>\<open>s.replace(/c+/g, r)\<close> for a character class \<^verbatim>\<open>c\<close>: every maximal run of characters
  of the class is replaced by \<open>r\<close>.
\<close>

function replace_runs :: "(char \<Rightarrow> bool) \<Rightarrow> string \<Rightarrow> string \<Rightarrow> string" where
  "replace_runs p r [] = []"
| "replace_runs p r (c # cs) =
     (if p c then r @ replace_runs p r (dropWhile p cs) else c # replace_runs p r cs)"
  by pat_completeness auto
termination
  by (relation "measure (\<lambda>(p, r, s). length s)") (auto simp: le_imp_less_Suc length_dropWhile_le)

text \<open>
  \<^verbatim>\<open>s.replace(/^-|-$/g, '')\<close>: a hyphen at index 0 matches the first alternative; after
  it only a hyphen that is the last character can match (the pattern has no \<^verbatim>\<open>m\<close> flag).
\<close>

definition strip_edge_hyphens :: "string \<Rightarrow> string" where
  "strip_edge_hyphens s =
     (let s1 = (case s of [] \<Rightarrow> [] | c # cs \<Rightarrow> if c = CHR ''-'' then cs else s)
      in if s1 \<noteq> [] \<and> last s1 = CHR ''-'' then butlast s1 else s1)"

definition slugify :: "string \<Rightarrow> string" where
  "slugify str =
     strip_edge_hyphens
       (replace_runs (\<lambda>c. c = CHR ''-'') ''-''
          (replace_runs isWhiteSpace ''-''
             (filter (\<lambda>c. isWordChar c \<or> isWhiteSpace c \<or> c = CHR ''-'')
                (trim (toLowerCase str)))))"

text \<open>\<^verbatim>\<open>EventModel.exists({ slug: candidate })\<close> on the stored events.\<close>

definition exists_slug :: "IEvent list \<Rightarrow> string \<Rightarrow> bool" where
  "exists_slug store candidate = list_ex (\<lambda>e. slug e = Some candidate) store"

lemma finite_suffixed_slugs:
  "finite {n. exists_slug store (base @ ''-'' @ numberToString n)}"
proof -
  have "{n. exists_slug store (base @ ''-'' @ numberToString n)}
        \<subseteq> (\<lambda>n. Some (base @ ''-'' @ numberToString n)) -` (slug ` set store)"
    by (force simp: exists_slug_def list_ex_iff image_iff)
  moreover have "finite ((\<lambda>n. Some (base @ ''-'' @ numberToString n)) -` (slug ` set store))"
    by (rule finite_vimageI) (auto simp: inj_on_def numberToString_inject)
  ultimately show ?thesis by (rule finite_subset)
qed

text \<open>
  The loop \<^verbatim>\<open>while (true) { ... }\<close> of the hook, entered with \<^verbatim>\<open>counter\<close> and
  \<^verbatim>\<open>candidate\<close>; its value is the candidate at the \<^verbatim>\<open>break\<close>.
\<close>

function slug_loop :: "IEvent list \<Rightarrow> string \<Rightarrow> nat \<Rightarrow> string \<Rightarrow> string" where
  "slug_loop store base counter candidate =
     (if \<not> exists_slug store candidate then candidate
      else slug_loop store base (counter + 1) (base @ ''-'' @ numberToString (counter + 1)))"
  by pat_completeness auto
termination
proof (relation "measure (\<lambda>(store, base, counter, candidate).
    (if exists_slug store candidate then 1 else 0)
    + card {n. counter < n \<and> exists_slug store (base @ ''-'' @ numberToString n)})")
  show "wf (measure (\<lambda>(store, base, counter, candidate).
    (if exists_slug store candidate then 1 else 0)
    + card {n. counter < n \<and> exists_slug store (base @ ''-'' @ numberToString n)}))"
    by simp
next
  fix store :: "IEvent list" and base :: string and counter :: nat and candidate :: string
  assume "\<not> \<not> exists_slug store candidate"
  let ?P = "\<lambda>n. exists_slug store (base @ ''-'' @ numberToString n)"
  have fin: "finite {n. counter + 1 < n \<and> ?P n}"
    using finite_suffixed_slugs [of store base] by (rule rev_finite_subset) auto
  have split: "{n. counter < n \<and> ?P n}
      = (if ?P (counter + 1) then {counter + 1} else {}) \<union> {n. counter + 1 < n \<and> ?P n}"
    by (auto simp: less_Suc_eq_le Suc_le_eq intro: le_neq_implies_less)
  have "card {n. counter < n \<and> ?P n}
      = (if ?P (counter + 1) then 1 else 0) + card {n. counter + 1 < n \<and> ?P n}"
    unfolding split using fin by (auto simp: card_insert_if)
  with \<open>\<not> \<not> exists_slug store candidate\<close>
  show "((store, base, counter + 1, base @ ''-'' @ numberToString (counter + 1)),
         (store, base, counter, candidate)) \<in> measure (\<lambda>(store, base, counter, candidate).
    (if exists_slug store candidate then 1 else 0)
    + card {n. counter < n \<and> exists_slug store (base @ ''-'' @ numberToString n)})"
    by simp
qed

declare slug_loop.simps [simp del]

subsection \<open>The pre-validate hook\<close>

text \<open>A value is falsy when it is \<^verbatim>\<open>undefined\<close> or the empty string.\<close>

definition falsy :: "string option \<Rightarrow> bool" where
  "falsy v = (v = None \<or> v = Some [])"

text \<open>The schema options \<^verbatim>\<open>lowercase: true, trim: true\<close> of the path \<^verbatim>\<open>slug\<close>, applied to
  every value assigned to it.\<close>

definition slug_setter :: "string \<Rightarrow> string" where
  "slug_setter s = trim (toLowerCase s)"

text \<open>
  The hook \<^verbatim>\<open>eventSchema.pre('validate', ...)\<close> in its three blocks. \<open>isModified\<close> is the
  document's \<^verbatim>\<open>isModified\<close>, \<open>store\<close> the events the model's queries see.
\<close>

definition slug_step :: "(string \<Rightarrow> bool) \<Rightarrow> IEvent list \<Rightarrow> IEvent \<Rightarrow> IEvent" where
  "slug_step isModified store doc =
     (if isModified ''title'' \<or> falsy (slug doc) then
        (let base = slugify (case title doc of None \<Rightarrow> [] | Some s \<Rightarrow> s);
             candidate = (if base = [] then ''event'' else base)
         in doc\<lparr>slug := Some (slug_setter (slug_loop store base 0 candidate))\<rparr>)
      else doc)"

definition date_step :: "(string \<Rightarrow> bool) \<Rightarrow> IEvent \<Rightarrow> thrown + IEvent" where
  "date_step isModified doc =
     (if isModified ''date'' then
        (case normalize_date (date doc) of
           Inl e \<Rightarrow> Inl e
         | Inr d \<Rightarrow> Inr (doc\<lparr>date := Some d\<rparr>))
      else Inr doc)"

definition time_step :: "(string \<Rightarrow> bool) \<Rightarrow> IEvent \<Rightarrow> thrown + IEvent" where
  "time_step isModified doc =
     (if isModified ''time'' then
        (case normalize_time (time doc) of
           Inl e \<Rightarrow> Inl e
         | Inr t \<Rightarrow> Inr (doc\<lparr>time := Some t\<rparr>))
      else Inr doc)"

definition pre_validate :: "(string \<Rightarrow> bool) \<Rightarrow> IEvent list \<Rightarrow> IEvent \<Rightarrow> thrown + IEvent" where
  "pre_validate isModified store doc =
     (case date_step isModified (slug_step isModified store doc) of
        Inl e \<Rightarrow> Inl e
      | Inr doc' \<Rightarrow> time_step isModified doc')"

section \<open>Creating events\<close>

text \<open>
  The object handed to \<^verbatim>\<open>Event.create\<close>: a map from field names to values, each a string
  or a list of strings. (Uploaded files are outside the model.)
\<close>

datatype jsvalue = Str string | Arr "string list"

type_synonym jsobject = "string \<Rightarrow> jsvalue option"

text \<open>
  Casting to a path of the schema. A path of type \<^verbatim>\<open>String\<close> takes a string; a path of type
  \<^verbatim>\<open>[String]\<close> takes a list, wraps a single string, and defaults to the empty list.
\<close>

definition string_path :: "jsobject \<Rightarrow> string \<Rightarrow> string option" where
  "string_path obj key = (case obj key of Some (Str s) \<Rightarrow> Some s | _ \<Rightarrow> None)"

definition array_path :: "jsobject \<Rightarrow> string \<Rightarrow> string list" where
  "array_path obj key =
     (case obj key of Some (Arr xs) \<Rightarrow> xs | Some (Str s) \<Rightarrow> [s] | None \<Rightarrow> [])"

text \<open>\<^verbatim>\<open>new Event(obj)\<close> under \<^verbatim>\<open>eventSchema\<close>: the setters of a path (\<^verbatim>\<open>trim\<close>,
  \<^verbatim>\<open>lowercase\<close>) are applied to the value given for it.\<close>

definition new_Event :: "jsobject \<Rightarrow> IEvent" where
  "new_Event obj =
     \<lparr> title = map_option trim (string_path obj ''title''),
       slug = map_option slug_setter (string_path obj ''slug''),
       description = map_option trim (string_path obj ''description''),
       overview = map_option trim (string_path obj ''overview''),
       image' = map_option trim (string_path obj ''image''),
       venue = map_option trim (string_path obj ''venue''),
       location = map_option trim (string_path obj ''location''),
       date = string_path obj ''date'',
       time = string_path obj ''time'',
       mode = map_option trim (string_path obj ''mode''),
       audience = map_option trim (string_path obj ''audience''),
       agenda = array_path obj ''agenda'',
       organizer = map_option trim (string_path obj ''organizer''),
       tags = array_path obj ''tags'' \<rparr>"

text \<open>
  The validators of \<^verbatim>\<open>eventSchema\<close>: the paths that fail, in the order of the schema.
  \<^verbatim>\<open>required\<close> fails on a string path that is \<^verbatim>\<open>undefined\<close> or empty; the validator of
  \<^verbatim>\<open>agenda\<close> and of \<^verbatim>\<open>tags\<close> is \<^verbatim>\<open>arr.length > 0\<close>. Mongoose reports the failing
  paths in an order of its own: of the list, only which paths are in it is meant.
\<close>

definition invalid_paths :: "IEvent \<Rightarrow> string list" where
  "invalid_paths doc =
     (if falsy (title doc) then [''title''] else [])
     @ (if falsy (description doc) then [''description''] else [])
     @ (if falsy (overview doc) then [''overview''] else [])
     @ (if falsy (image' doc) then [''image''] else [])
     @ (if falsy (venue doc) then [''venue''] else [])
     @ (if falsy (location doc) then [''location''] else [])
     @ (if falsy (date doc) then [''date''] else [])
     @ (if falsy (time doc) then [''time''] else [])
     @ (if falsy (mode doc) then [''mode''] else [])
     @ (if falsy (audience doc) then [''audience''] else [])
     @ (if \<not> length (agenda doc) > 0 then [''agenda''] else [])
     @ (if falsy (organizer doc) then [''organizer''] else [])
     @ (if \<not> length (tags doc) > 0 then [''tags''] else [])"

text \<open>How \<^verbatim>\<open>Event.create\<close> fails: an error thrown by the hook, a \<^verbatim>\<open>ValidationError\<close> with the
  failing paths, or the duplicate key error (code 11000) of a unique index with the
  field it is on.\<close>

datatype create_error = Thrown thrown | ValidationError "string list" | DuplicateKey string

text \<open>
  \<^verbatim>\<open>Event.create(obj)\<close> on the stored events: the document is built, the pre-validate hook
  runs, then the validators, then the insert under the unique index on \<^verbatim>\<open>slug\<close>. A path
  counts as modified on a new document when the object gave it a value. A list given for
  a path of type \<^verbatim>\<open>String\<close> is read as no value, which fails \<^verbatim>\<open>required\<close>; mongoose records
  a cast error for the path instead, and answers with a \<^verbatim>\<open>ValidationError\<close> as well.
\<close>

definition Event_create :: "IEvent list \<Rightarrow> jsobject \<Rightarrow> create_error + (IEvent \<times> IEvent list)" where
  "Event_create store obj =
     (case pre_validate (\<lambda>path. obj path \<noteq> None) store (new_Event obj) of
        Inl e \<Rightarrow> Inl (Thrown e)
      | Inr doc \<Rightarrow>
          if invalid_paths doc \<noteq> [] then Inl (ValidationError (invalid_paths doc))
          else if list_ex (\<lambda>e. slug e = slug doc) store then Inl (DuplicateKey ''slug'')
          else Inr (doc, store @ [doc]))"

text \<open>\<^verbatim>\<open>Event.deleteOne({ slug: s })\<close>: the first stored event with that slug is removed.\<close>

fun deleteOne_slug :: "string \<Rightarrow> IEvent list \<Rightarrow> IEvent list" where
  "deleteOne_slug s [] = []"
| "deleteOne_slug s (e # es) = (if slug e = Some s then es else e # deleteOne_slug s es)"

section \<open>The connection cache\<close>

text \<open>
  The file of \<^verbatim>\<open>dbConnect\<close> holds two revisions of it. The model is the later one; the
  earlier one differs in the \<^verbatim>\<open>catch\<close> block only, where it clears the promise and
  rethrows every error as it is, and in the options, which lack the timeout.
\<close>

text \<open>The value a connection resolves to is the \<^verbatim>\<open>mongoose\<close> module itself.\<close>

datatype mongoose = Mongoose

text \<open>
  The cache. A promise is represented by the outcome it settles to: awaiting it gives
  the value or throws the reason.
\<close>

record MongooseCache =
  conn :: "mongoose option"
  promise :: "(thrown + mongoose) option"

record connect_opts =
  bufferCommands :: bool
  serverSelectionTimeoutMS :: nat

text \<open>
  The state of the process and its database: the cache, the calls of
  \<^verbatim>\<open>mongoose.connect\<close> made so far with their arguments, and the stored events.
\<close>

record world =
  cached :: MongooseCache
  dials :: "(string \<times> connect_opts) list"
  events :: "IEvent list"

text \<open>The outcome of a call of \<^verbatim>\<open>mongoose.connect\<close>, given how many calls came before it.\<close>

type_synonym network = "nat \<Rightarrow> string \<Rightarrow> connect_opts \<Rightarrow> thrown + mongoose"

text \<open>
  \<^verbatim>\<open>/querySrv|ECONNREFUSED|ENOTFOUND/i.test(message)\<close>: one of the three words occurs in
  the message, letter case ignored.
\<close>

definition occurs_ignoring_case :: "string \<Rightarrow> string \<Rightarrow> bool" where
  "occurs_ignoring_case word s = sublist (toLowerCase word) (toLowerCase s)"

definition network_pattern_test :: "string \<Rightarrow> bool" where
  "network_pattern_test message =
     (occurs_ignoring_case ''querySrv'' message
      \<or> occurs_ignoring_case ''ECONNREFUSED'' message
      \<or> occurs_ignoring_case ''ENOTFOUND'' message)"

text \<open>
  The two texts of \<^verbatim>\<open>extra\<close>: \<open>SrvLookupFailed\<close> is ``The URI uses mongodb+srv:// (dash)
  DNS SRV lookup failed. Try a non-SRV connection string or fix DNS/network.'' and
  \<open>NetworkUnreachable\<close> is ``Network error while connecting to MongoDB. Check that the host is
  reachable and credentials are correct.''
\<close>

datatype guidance = SrvLookupFailed | NetworkUnreachable

text \<open>
  What \<^verbatim>\<open>dbConnect\<close> throws: the configuration error (``Please define the MONGODB_URI
  environment variable inside .env.local''), the wrapped error (``MongoDB connection
  error: (message). (extra) See MONGODB_URI and network settings.'') with the original
  message and the chosen text, or the original value.
\<close>

datatype connect_error = MissingUri | Wrapped string guidance | Original thrown

text \<open>The options \<^verbatim>\<open>opts\<close> of the connection attempt.\<close>

definition connect_options :: connect_opts where
  "connect_options = \<lparr> bufferCommands = False, serverSelectionTimeoutMS = 5000 \<rparr>"

definition dbConnect :: "string option \<Rightarrow> network \<Rightarrow> world \<Rightarrow> (connect_error + mongoose) \<times> world" where
  "dbConnect MONGODB_URI connect w =
     (case MONGODB_URI of
        None \<Rightarrow> (Inl MissingUri, w)
      | Some uri \<Rightarrow>
          if uri = [] then (Inl MissingUri, w)
          else (case conn (cached w) of
             Some c \<Rightarrow> (Inr c, w)
           | None \<Rightarrow>
               (let opts = connect_options;
                    (p, w1) = (case promise (cached w) of
                                 Some p \<Rightarrow> (p, w)
                               | None \<Rightarrow>
                                   (let p = connect (length (dials w)) uri opts
                                    in (p, w\<lparr> cached := (cached w)\<lparr> promise := Some p \<rparr>,
                                             dials := dials w @ [(uri, opts)] \<rparr>)))
                in case p of
                     Inr m \<Rightarrow> (Inr m, w1\<lparr> cached := (cached w1)\<lparr> conn := Some m \<rparr> \<rparr>)
                   | Inl error \<Rightarrow>
                       (let w2 = w1\<lparr> cached := (cached w1)\<lparr> promise := None \<rparr> \<rparr>
                        in case error of
                             Error message \<Rightarrow>
                               if network_pattern_test message then
                                 (let isSrv = prefix ''mongodb+srv://'' uri;
                                      extra = (if isSrv then SrvLookupFailed else NetworkUnreachable)
                                  in (Inl (Wrapped message extra), w2))
                               else (Inl (Original error), w2)
                           | NonError \<Rightarrow> (Inl (Original error), w2)))))"

section \<open>The route\<close>

record process_env =
  NODE_ENV :: "string option"
  CLEANUP_TEST_EVENTS :: "string option"
  MONGODB_URI :: "string option"

text \<open>The body of \<^verbatim>\<open>['agenda', 'tags'].forEach((key) => { ... })\<close> for one key.\<close>

definition coerce_key :: "string \<Rightarrow> jsobject \<Rightarrow> jsobject" where
  "coerce_key key event =
     (case event key of
        Some (Str v) \<Rightarrow>
          (let val = trim v
           in event(key \<mapsto> Arr (if val \<noteq> []
                then filter (\<lambda>s. s \<noteq> []) (map trim (split CHR '','' val)) else [])))
      | _ \<Rightarrow> event)"

definition coerce_array_fields :: "jsobject \<Rightarrow> jsobject" where
  "coerce_array_fields event = fold coerce_key [''agenda'', ''tags''] event"

text \<open>\<^verbatim>\<open>Object.fromEntries(formData.entries())\<close>: a later entry of a name replaces an earlier
  one. Every value of the form is a string.\<close>

definition Object_fromEntries :: "(string \<times> string) list \<Rightarrow> jsobject" where
  "Object_fromEntries entries = fold (\<lambda>(k, v) m. m(k \<mapsto> Str v)) entries Map.empty"

text \<open>The response: its status, the \<^verbatim>\<open>message\<close> of its body and the created event when
  there is one.\<close>

record response =
  status :: nat
  message :: string
  event :: "IEvent option"

text \<open>
  \<^verbatim>\<open>POST(req)\<close>, in the revision of the route that cleans up the test event (the other
  revision is the same without that step). The request is the entries of its form, or
  \<open>None\<close> when \<^verbatim>\<open>req.formData()\<close> rejects. \<^verbatim>\<open>Object.fromEntries\<close> does not throw on the
  entries of a form, so the response \<^verbatim>\<open>Invalid form data\<close> has no case; the fields
  \<^verbatim>\<open>error\<close> and \<^verbatim>\<open>details\<close> of a body repeat the error caught and are left out.
\<close>

definition POST :: "process_env \<Rightarrow> network \<Rightarrow> world \<Rightarrow> (string \<times> string) list option
    \<Rightarrow> response \<times> world" where
  "POST env connect w req =
     (case dbConnect (MONGODB_URI env) connect w of
        (Inl e, w1) \<Rightarrow> (\<lparr> status = 500, message = ''Event Creation Failed'', event = None \<rparr>, w1)
      | (Inr m, w1) \<Rightarrow>
          (case req of
             None \<Rightarrow> (\<lparr> status = 500, message = ''Event Creation Failed'', event = None \<rparr>, w1)
           | Some formData \<Rightarrow>
               (let event = coerce_array_fields (Object_fromEntries formData);
                    w2 = (if NODE_ENV env = Some ''test'' \<or> CLEANUP_TEST_EVENTS env = Some ''true''
                          then w1\<lparr> events := deleteOne_slug ''cloud-next-2026'' (events w1) \<rparr>
                          else w1)
                in case Event_create (events w2) event of
                     Inr (createdEvent, store) \<Rightarrow>
                       (\<lparr> status = 201, message = ''Event Created Successfully'',
                          event = Some createdEvent \<rparr>, w2\<lparr> events := store \<rparr>)
                   | Inl (DuplicateKey field) \<Rightarrow>
                       (\<lparr> status = 409, message = ''Duplicate value error'', event = None \<rparr>, w2)
                   | Inl (ValidationError paths) \<Rightarrow>
                       (\<lparr> status = 400, message = ''Validation failed'', event = None \<rparr>, w2)
                   | Inl (Thrown err) \<Rightarrow>
                       (\<lparr> status = 500, message = ''Event Creation Failed'', event = None \<rparr>, w2))))"

section \<open>The Booking model\<close>

type_synonym ObjectId = nat

record IBooking =
  eventId :: ObjectId
  email :: string

text \<open>
  The hook \<^verbatim>\<open>bookingSchema.pre('save', ...)\<close>. \<open>Event_exists\<close> is the outcome of
  \<^verbatim>\<open>Event.exists({ _id: id })\<close>: whether a record was found, or the value the call throws.
  The result is the error given to \<^verbatim>\<open>next\<close> or the document the save proceeds with,
  and the identities looked up.
\<close>

definition booking_pre_save ::
    "(string \<Rightarrow> bool) \<Rightarrow> (ObjectId \<Rightarrow> thrown + bool) \<Rightarrow> IBooking
      \<Rightarrow> (thrown + IBooking) \<times> ObjectId list" where
  "booking_pre_save isModified Event_exists this =
     (if isModified ''eventId'' then
        (case Event_exists (eventId this) of
           Inr eventExists \<Rightarrow>
             if \<not> eventExists then (Inl (Error ''Referenced event does not exist''), [eventId this])
             else (Inr this, [eventId this])
         | Inl error \<Rightarrow>
             (case error of
                Error msg \<Rightarrow> (Inl error, [eventId this])
              | NonError \<Rightarrow> (Inl (Error ''Failed to validate event reference''), [eventId this])))
      else (Inr this, []))"

section \<open>Reference notions\<close>

text \<open>An hour of the 24-hour clock written with one or two digits: 0 to 23.\<close>

definition hour_text :: "string \<Rightarrow> bool" where
  "hour_text h = ((length h = 1 \<or> length h = 2) \<and> list_all isDigit h \<and> decimal h \<le> 23)"

text \<open>A minute written with two digits: 00 to 59.\<close>

definition minute_text :: "string \<Rightarrow> bool" where
  "minute_text m = (length m = 2 \<and> list_all isDigit m \<and> decimal m \<le> 59)"

text \<open>The Gregorian calendar: leap years, and the number of days of month \<open>m\<close> (1 to 12) of
  year \<open>y\<close>.\<close>

definition leap_year :: "int \<Rightarrow> bool" where
  "leap_year y = (y mod 4 = 0 \<and> (y mod 100 \<noteq> 0 \<or> y mod 400 = 0))"

definition days_in_month :: "int \<Rightarrow> int \<Rightarrow> int" where
  "days_in_month y m =
     (if m = 2 then (if leap_year y then 29 else 28)
      else if m = 4 \<or> m = 6 \<or> m = 9 \<or> m = 11 then 30 else 31)"

text \<open>A text \<open>YYYY-MM-DD\<close> in its three parts: four digits, a month 01 to 12 and a day 01 to
  31 in two digits each.\<close>

definition date_syntax :: "string \<Rightarrow> string \<Rightarrow> string \<Rightarrow> bool" where
  "date_syntax ys ms ds =
     (length ys = 4 \<and> list_all isDigit ys
      \<and> length ms = 2 \<and> list_all isDigit ms \<and> 1 \<le> decimal ms \<and> decimal ms \<le> 12
      \<and> length ds = 2 \<and> list_all isDigit ds \<and> 1 \<le> decimal ds \<and> decimal ds \<le> 31)"

text \<open>A list field as the interface asks the gateway to coerce it: split on commas, each
  segment trimmed, the empty segments dropped.\<close>

definition split_trim_drop :: "string \<Rightarrow> string list" where
  "split_trim_drop s = filter (\<lambda>seg. seg \<noteq> []) (map trim (split CHR '','' s))"

text \<open>The outcome \<^verbatim>\<open>dbConnect\<close> awaits when no connection is cached: that of the attempt in
  flight, or of the attempt it starts.\<close>

definition awaited :: "string \<Rightarrow> network \<Rightarrow> world \<Rightarrow> thrown + mongoose" where
  "awaited uri connect w =
     (case promise (cached w) of
        Some p \<Rightarrow> p
      | None \<Rightarrow> connect (length (dials w)) uri connect_options)"

text \<open>What the \<^verbatim>\<open>catch\<close> block of \<^verbatim>\<open>dbConnect\<close> throws for the value it caught.\<close>

definition thrown_on_failure :: "string \<Rightarrow> thrown \<Rightarrow> connect_error" where
  "thrown_on_failure uri error =
     (case error of
        Error msg \<Rightarrow>
          if network_pattern_test msg
          then Wrapped msg (if prefix ''mongodb+srv://'' uri then SrvLookupFailed
                            else NetworkUnreachable)
          else Original error
      | NonError \<Rightarrow> Original error)"

text \<open>The candidates the loop of the hook tries, in order: the first one, then the base
  with the suffixes \<open>-1\<close>, \<open>-2\<close>, ...\<close>

definition candidate_at :: "string \<Rightarrow> string \<Rightarrow> nat \<Rightarrow> string" where
  "candidate_at first base k = (if k = 0 then first else base @ ''-'' @ numberToString k)"


text \<open>A sequence of creations, each on the store the one before left: the outcome of each
  and the final store. A creation that fails stores nothing.\<close>

fun create_all :: "IEvent list \<Rightarrow> jsobject list \<Rightarrow> (create_error + IEvent) list \<times> IEvent list" where
  "create_all store [] = ([], store)"
| "create_all store (obj # objs) =
     (case Event_create store obj of
        Inl e \<Rightarrow> (Inl e # fst (create_all store objs), snd (create_all store objs))
      | Inr (doc, store') \<Rightarrow>
          (Inr doc # fst (create_all store' objs), snd (create_all store' objs)))"

text \<open>The documents of the creations that succeeded, in order.\<close>

definition created_docs :: "(create_error + IEvent) list \<Rightarrow> IEvent list" where
  "created_docs results = concat (map (\<lambda>r. case r of Inl e \<Rightarrow> [] | Inr doc \<Rightarrow> [doc]) results)"

text \<open>A string that the setters of \<^verbatim>\<open>slug\<close> leave as it is: no white space, no capital.\<close>

definition canonical :: "string \<Rightarrow> bool" where
  "canonical s = list_all (\<lambda>c. \<not> isWhiteSpace c \<and> toLowerChar c = c) s"

text \<open>The condition under which the route deletes the known test event.\<close>

definition cleanup_enabled :: "process_env \<Rightarrow> bool" where
  "cleanup_enabled env = (NODE_ENV env = Some ''test'' \<or> CLEANUP_TEST_EVENTS env = Some ''true'')"

section \<open>Example values\<close>

definition sample_form :: "(string \<times> string) list" where
  "sample_form =
     [(''title'', ''Cloud Next 2026!''), (''description'', ''Annual cloud conference''),
      (''overview'', ''Talks and workshops''), (''image'', ''/images/cloud-next.png''),
      (''venue'', ''Moscone Center''), (''location'', ''San Francisco''),
      (''date'', ''2026-03-10''), (''time'', ''9:05''), (''mode'', ''offline''),
      (''audience'', ''Developers''), (''agenda'', ''Keynote, Workshops''),
      (''organizer'', ''Google Cloud''), (''tags'', ''cloud,ai'')]"

definition sample_event :: IEvent where
  "sample_event =
     \<lparr> title = Some ''Cloud Next 2026!'', slug = Some ''cloud-next-2026'',
       description = Some ''Annual cloud conference'', overview = Some ''Talks and workshops'',
       image' = Some ''/images/cloud-next.png'', venue = Some ''Moscone Center'',
       location = Some ''San Francisco'', date = Some ''2026-03-10'', time = Some ''09:05'',
       mode = Some ''offline'', audience = Some ''Developers'',
       agenda = [''Keynote'', ''Workshops''], organizer = Some ''Google Cloud'',
       tags = [''cloud'', ''ai''] \<rparr>"

definition connected_world :: "IEvent list \<Rightarrow> world" where
  "connected_world store =
     \<lparr> cached = \<lparr> conn = Some Mongoose, promise = Some (Inr Mongoose) \<rparr>,
       dials = [(''mongodb://localhost/dev'', connect_options)], events = store \<rparr>"

definition env_of :: "string option \<Rightarrow> string option \<Rightarrow> process_env" where
  "env_of node cleanup =
     \<lparr> NODE_ENV = node, CLEANUP_TEST_EVENTS = cleanup, MONGODB_URI = Some ''mongodb://localhost/dev'' \<rparr>"

definition failing_network :: network where
  "failing_network n uri opts =
     (if n = 0 then Inl (Error ''querySrv ECONNREFUSED _mongodb._tcp.cluster0.mongodb.net'')
      else Inr Mongoose)"

definition fresh_world :: world where
  "fresh_world = \<lparr> cached = \<lparr> conn = None, promise = None \<rparr>, dials = [], events = [] \<rparr>"

definition sample_booking :: IBooking where
  "sample_booking = \<lparr> eventId = 7, email = ''dev@example.com'' \<rparr>"

definition sample_candidate :: jsobject where
  "sample_candidate = coerce_array_fields (Object_fromEntries sample_form)"

definition titled :: "string \<Rightarrow> jsobject" where
  "titled t = sample_candidate(''title'' \<mapsto> Str t)"

section \<open>Characters\<close>

lemma char_of_eq_code: "(char_of (n::nat) = c) = (n mod 256 = code c)"
  unfolding code_def by (metis of_char_of char_of_char)

lemma code_less_256: "code c < 256"
  unfolding code_def by simp

lemma code_inject: "(code c = code d) = (c = d)"
  unfolding code_def by simp

lemma length_1_iff: "(length xs = Suc 0) = (\<exists>a. xs = [a])"
  by (cases xs) auto

lemma length_2_iff: "(length xs = 2) = (\<exists>a b. xs = [a, b])"
  by (cases xs; cases "tl xs") auto

lemma code_CHR [simp]: "code (Char b0 b1 b2 b3 b4 b5 b6 b7) = of_char (Char b0 b1 b2 b3 b4 b5 b6 b7)"
  by (simp add: code_def)

lemma eq_CHR_iff: "(c = Char b0 b1 b2 b3 b4 b5 b6 b7) = (code c = code (Char b0 b1 b2 b3 b4 b5 b6 b7))"
  by (simp only: code_inject)

lemma split_no_sep: "sep \<notin> set s \<Longrightarrow> split sep s = [s]"
  by (induction s) auto

lemma split_append_sep: "sep \<notin> set h \<Longrightarrow> split sep (h @ sep # m) = h # split sep m"
  by (induction h) auto

lemma digit_not_colon: "isDigit c \<Longrightarrow> c \<noteq> CHR '':''"
  by (auto simp: isDigit_def)

lemma digits_no_colon: "list_all isDigit s \<Longrightarrow> CHR '':'' \<notin> set s"
  by (induction s) (auto simp: isDigit_def)

lemma hour_text_1: "hour_text [a] = isDigit a"
  by (auto simp: hour_text_def decimal_def digit_val_def isDigit_def)

lemma hour_text_2: "hour_text [a, b] =
   ((inRange CHR ''0'' CHR ''1'' a \<and> inRange CHR ''0'' CHR ''9'' b) \<or> (a = CHR ''2'' \<and> inRange CHR ''0'' CHR ''3'' b))"
  by (auto simp: hour_text_def decimal_def digit_val_def isDigit_def inRange_def eq_CHR_iff)

lemma minute_text_2: "minute_text [a, b] = (inRange CHR ''0'' CHR ''5'' a \<and> inRange CHR ''0'' CHR ''9'' b)"
  by (auto simp: minute_text_def decimal_def digit_val_def isDigit_def inRange_def)

lemma hour_text_cases: "hour_text h \<Longrightarrow> (\<exists>a. h = [a]) \<or> (\<exists>a b. h = [a, b])"
  by (auto simp: hour_text_def length_1_iff length_2_iff)

lemma minute_text_cases: "minute_text m \<Longrightarrow> \<exists>a b. m = [a, b]"
  by (auto simp: minute_text_def length_2_iff)

lemma timeRegex_test_clock:
  assumes "hour_text h" "minute_text m"
  shows "timeRegex_test (h @ '':'' @ m)"
proof -
  obtain x y where m: "m = [x, y]" using minute_text_cases [OF assms(2)] by blast
  from hour_text_cases [OF assms(1)] show ?thesis
  proof (elim disjE exE)
    fix a assume "h = [a]"
    with assms m show ?thesis
      by (simp add: hour_text_1 minute_text_2 isDigit_def inRange_def)
  next
    fix a b assume "h = [a, b]"
    with assms m show ?thesis
      by (simp add: hour_text_2 minute_text_2)
  qed
qed

lemma timeRegex_test_imp:
  "timeRegex_test s \<Longrightarrow> \<exists>h m. s = h @ '':'' @ m \<and> hour_text h \<and> minute_text m"
proof (induction s rule: timeRegex_test.induct)
  case (1 h c m1 m2)
  then have "[h, c, m1, m2] = [h] @ '':'' @ [m1, m2] \<and> hour_text [h] \<and> minute_text [m1, m2]"
    by (simp add: hour_text_1 minute_text_2 isDigit_def inRange_def)
  then show ?case by blast
next
  case (2 h1 h2 c m1 m2)
  then have "[h1, h2, c, m1, m2] = [h1, h2] @ '':'' @ [m1, m2] \<and> hour_text [h1, h2] \<and> minute_text [m1, m2]"
    by (simp add: hour_text_2 minute_text_2)
  then show ?case by blast
qed simp_all

lemma sep_decomposition_unique:
  assumes "h @ c # m = h' @ c # m'" "c \<notin> set h'" "c \<notin> set m'"
  shows "h = h' \<and> m = m'"
  using assms by (auto simp: append_eq_append_conv2 append_eq_Cons_conv Cons_eq_append_conv)

section \<open>Time normalization\<close>

lemma normalize_time_clock:
  "(hour_text h \<and> minute_text m \<longrightarrow>
      normalize_time (Some (h @ '':'' @ m)) = Inr (padStart 2 CHR ''0'' h @ '':'' @ m)
      \<and> length (padStart 2 CHR ''0'' h) = 2)
   \<and> (\<not> hour_text h \<longrightarrow>
      normalize_time (Some (h @ '':'' @ m)) = Inl (Error ''Time must be in HH:MM format''))"
proof (intro conjI impI)
  assume a: "hour_text h \<and> minute_text m"
  then have t: "timeRegex_test (h @ '':'' @ m)"
    using timeRegex_test_clock [of h m] by simp
  have "CHR '':'' \<notin> set h" "CHR '':'' \<notin> set m"
    using a by (simp_all add: hour_text_def minute_text_def digits_no_colon)
  then have "split CHR '':'' (h @ '':'' @ m) = [h, m]"
    by (simp add: split_append_sep split_no_sep)
  with t show "normalize_time (Some (h @ '':'' @ m)) = Inr (padStart 2 CHR ''0'' h @ '':'' @ m)"
    by (simp add: normalize_time_def toString_def)
  show "length (padStart 2 CHR ''0'' h) = 2"
    using a by (auto simp: padStart_def hour_text_def)
next
  assume n: "\<not> hour_text h"
  have "\<not> timeRegex_test (h @ '':'' @ m)"
  proof
    assume "timeRegex_test (h @ '':'' @ m)"
    then obtain h' m' where e: "h @ '':'' @ m = h' @ '':'' @ m'" and hm: "hour_text h'" "minute_text m'"
      using timeRegex_test_imp by blast
    have "CHR '':'' \<notin> set h'" "CHR '':'' \<notin> set m'"
      using hm by (simp_all add: hour_text_def minute_text_def digits_no_colon)
    with e have "h = h'" using sep_decomposition_unique [of h "CHR '':''" m h' m'] by simp
    with hm n show False by simp
  qed
  then show "normalize_time (Some (h @ '':'' @ m)) = Inl (Error ''Time must be in HH:MM format'')"
    by (simp add: normalize_time_def toString_def)
qed

section \<open>Coercion of list fields\<close>

lemma split_not_Nil: "split sep s \<noteq> []"
  by (induction s) (auto split: list.splits)

lemma split_prepend:
  "sep \<notin> set a \<Longrightarrow> split sep (a @ s) = (a @ hd (split sep s)) # tl (split sep s)"
proof (induction a)
  case Nil
  then show ?case using split_not_Nil [of sep s] by simp
next
  case (Cons x a)
  then show ?case by auto
qed

lemma split_append:
  "sep \<notin> set b \<Longrightarrow> split sep (s @ b) = butlast (split sep s) @ [last (split sep s) @ b]"
proof (induction s)
  case Nil
  then show ?case by (simp add: split_no_sep)
next
  case (Cons x s)
  then show ?case
    using split_not_Nil [of sep s] by (auto split: list.splits)
qed

lemma trimStart_prepend: "list_all isWhiteSpace a \<Longrightarrow> trimStart (a @ s) = trimStart s"
  by (induction a) (simp_all add: trimStart_def)

lemma trimEnd_append: "list_all isWhiteSpace b \<Longrightarrow> trimEnd (s @ b) = trimEnd s"
  by (induction b rule: rev_induct) (simp_all add: trimEnd_def flip: append_assoc)

lemma trimStart_append_nonblank:
  "\<not> list_all isWhiteSpace s \<Longrightarrow> trimStart (s @ b) = trimStart s @ b"
  by (induction s) (auto simp: trimStart_def)

lemma trimStart_blank: "list_all isWhiteSpace s \<Longrightarrow> trimStart s = []"
  by (induction s) (auto simp: trimStart_def)

lemma trimEnd_blank: "list_all isWhiteSpace s \<Longrightarrow> trimEnd s = []"
  by (simp add: trimEnd_def list_all_iff)

lemma trim_prepend: "list_all isWhiteSpace a \<Longrightarrow> trim (a @ s) = trim s"
  by (simp add: trim_def trimStart_prepend)

lemma trim_append: "list_all isWhiteSpace b \<Longrightarrow> trim (s @ b) = trim s"
proof (cases "list_all isWhiteSpace s")
  case True
  assume "list_all isWhiteSpace b"
  with True have "list_all isWhiteSpace (s @ b)" by simp
  then have "trim (s @ b) = []" by (simp only: trim_def trimStart_blank) (simp add: trimEnd_def)
  moreover have "trim s = []" using True by (simp only: trim_def trimStart_blank) (simp add: trimEnd_def)
  ultimately show ?thesis by simp
next
  case False
  assume "list_all isWhiteSpace b"
  then show ?thesis using False by (simp add: trim_def trimStart_append_nonblank trimEnd_append)
qed

lemma trim_decomposition:
  "\<exists>a b. s = a @ trim s @ b \<and> list_all isWhiteSpace a \<and> list_all isWhiteSpace b"
proof -
  let ?t = "trimStart s"
  have 1: "s = takeWhile isWhiteSpace s @ ?t" by (simp add: trimStart_def)
  have "rev ?t = takeWhile isWhiteSpace (rev ?t) @ dropWhile isWhiteSpace (rev ?t)" by simp
  then have "?t = rev (dropWhile isWhiteSpace (rev ?t)) @ rev (takeWhile isWhiteSpace (rev ?t))"
    by (metis rev_append rev_rev_ident)
  then have 2: "?t = trim s @ rev (takeWhile isWhiteSpace (rev ?t))"
    by (simp add: trim_def trimEnd_def)
  have 3: "list_all isWhiteSpace (takeWhile isWhiteSpace s)"
    by (simp add: list_all_iff) (meson set_takeWhileD)
  have 4: "list_all isWhiteSpace (rev (takeWhile isWhiteSpace (rev ?t)))"
    by (simp add: list_all_iff) (meson set_takeWhileD)
  from 1 2 have "s = takeWhile isWhiteSpace s @ trim s @ rev (takeWhile isWhiteSpace (rev ?t))"
    by metis
  with 3 4 show ?thesis by blast
qed

lemma blank_no_comma: "list_all isWhiteSpace a \<Longrightarrow> CHR '','' \<notin> set a"
  by (induction a) (auto simp: isWhiteSpace_def)

lemma map_trim_split_blank_ends:
  assumes "list_all isWhiteSpace a" "list_all isWhiteSpace b"
  shows "map trim (split CHR '','' (a @ s @ b)) = map trim (split CHR '','' s)"
proof -
  let ?Y = "split CHR '','' s"
  let ?X = "split CHR '','' (s @ b)"
  have X: "?X = butlast ?Y @ [last ?Y @ b]"
    using assms(2) by (simp add: split_append blank_no_comma)
  have "map trim ?X = map trim (butlast ?Y) @ [trim (last ?Y)]"
    unfolding X using assms(2) by (simp add: trim_append)
  also have "\<dots> = map trim (butlast ?Y @ [last ?Y])" by simp
  also have "\<dots> = map trim ?Y" using split_not_Nil [of "CHR '',''" s] by simp
  finally have XY: "map trim ?X = map trim ?Y" .
  have "split CHR '','' (a @ s @ b) = (a @ hd ?X) # tl ?X"
    using assms(1) by (simp add: split_prepend blank_no_comma)
  then have "map trim (split CHR '','' (a @ s @ b)) = trim (hd ?X) # map trim (tl ?X)"
    using assms(1) by (simp add: trim_prepend)
  also have "\<dots> = map trim (hd ?X # tl ?X)" by simp
  also have "\<dots> = map trim ?X" using split_not_Nil [of "CHR '',''" "s @ b"] by simp
  finally show ?thesis using XY by simp
qed

lemma map_trim_split_trim: "map trim (split CHR '','' (trim s)) = map trim (split CHR '','' s)"
proof -
  obtain a b where "s = a @ trim s @ b" "list_all isWhiteSpace a" "list_all isWhiteSpace b"
    using trim_decomposition by blast
  then show ?thesis using map_trim_split_blank_ends [of a b "trim s"] by simp
qed

lemma coerced_value:
  "(let val = trim v in if val \<noteq> []
      then filter (\<lambda>s. s \<noteq> []) (map trim (split CHR '','' val)) else [])
   = split_trim_drop v"
proof (cases "trim v = []")
  case True
  have "map trim (split CHR '','' v) = map trim (split CHR '','' (trim v))"
    by (simp add: map_trim_split_trim)
  also have "\<dots> = [[]]" unfolding True by (simp add: trim_def trimStart_def trimEnd_def)
  finally show ?thesis using True by (simp add: split_trim_drop_def)
next
  case False
  then show ?thesis by (simp add: split_trim_drop_def map_trim_split_trim)
qed

lemma coerce_key_same:
  "obj key = Some (Str v) \<Longrightarrow> coerce_key key obj key = Some (Arr (split_trim_drop v))"
  using coerced_value [of v] by (simp add: coerce_key_def Let_def)

lemma coerce_key_other: "key' \<noteq> key \<Longrightarrow> coerce_key key obj key' = obj key'"
  by (auto simp: coerce_key_def Let_def split: option.splits jsvalue.splits)

lemma coerce_array_fields_segments:
  assumes "key = ''agenda'' \<or> key = ''tags''" and "obj key = Some (Str v)"
  shows "coerce_array_fields obj key = Some (Arr (split_trim_drop v))
    \<and> array_path (coerce_array_fields obj) key = split_trim_drop v"
proof -
  from assms have "coerce_array_fields obj key = Some (Arr (split_trim_drop v))"
    by (auto simp: coerce_array_fields_def coerce_key_same coerce_key_other)
  then show ?thesis by (simp add: array_path_def)
qed

lemma new_Event_lists:
  "agenda (new_Event obj) = array_path obj ''agenda''" "tags (new_Event obj) = array_path obj ''tags''"
  by (simp_all add: new_Event_def)

section \<open>The connection cache\<close>

text \<open>
  Claim C7. When no connection URI is configured (the variable is unset or empty), every
  call of \<^verbatim>\<open>dbConnect\<close> throws the configuration error, whatever the cache holds, and
  leaves the state as it was: no call of \<^verbatim>\<open>mongoose.connect\<close> is made.
\<close>

theorem dbConnect_unconfigured:
  "configured = None \<or> configured = Some [] \<Longrightarrow> dbConnect configured connect w = (Inl MissingUri, w)"
  by (auto simp: dbConnect_def)

theorem dbConnect_unconfigured_witness:
  "dbConnect None (\<lambda>n uri opts. Inr Mongoose)
     \<lparr> cached = \<lparr> conn = Some Mongoose, promise = Some (Inr Mongoose) \<rparr>, dials = [], events = [] \<rparr>
   = (Inl MissingUri,
      \<lparr> cached = \<lparr> conn = Some Mongoose, promise = Some (Inr Mongoose) \<rparr>, dials = [], events = [] \<rparr>)"
  using dbConnect_unconfigured [of None "\<lambda>n uri opts. Inr Mongoose"
     "\<lparr> cached = \<lparr> conn = Some Mongoose, promise = Some (Inr Mongoose) \<rparr>, dials = [], events = [] \<rparr>"]
  by simp

lemma dbConnect_in_flight_fails:
  assumes "uri \<noteq> []" and "conn (cached w) = None" and "promise (cached w) = Some (Inl error)"
  shows "dbConnect (Some uri) connect w
    = (Inl (thrown_on_failure uri error), w\<lparr> cached := (cached w)\<lparr> promise := None \<rparr> \<rparr>)"
  using assms by (cases error) (simp_all add: dbConnect_def thrown_on_failure_def Let_def)

lemma dbConnect_dial_fails:
  assumes "uri \<noteq> []" and "conn (cached w) = None" and "promise (cached w) = None"
    and "connect (length (dials w)) uri connect_options = Inl error"
  shows "dbConnect (Some uri) connect w
    = (Inl (thrown_on_failure uri error),
       w\<lparr> cached := (cached w)\<lparr> promise := None \<rparr>, dials := dials w @ [(uri, connect_options)] \<rparr>)"
  using assms by (cases error) (simp_all add: dbConnect_def thrown_on_failure_def connect_options_def Let_def)

lemma dbConnect_dial_succeeds:
  assumes "uri \<noteq> []" and "conn (cached w) = None" and "promise (cached w) = None"
    and "connect (length (dials w)) uri connect_options = Inr m"
  shows "dbConnect (Some uri) connect w
    = (Inr m, w\<lparr> cached := \<lparr> conn = Some m, promise = Some (Inr m) \<rparr>,
                  dials := dials w @ [(uri, connect_options)] \<rparr>)"
  using assms by (simp add: dbConnect_def connect_options_def Let_def)

lemma dbConnect_dials_again:
  assumes "uri \<noteq> []" and "conn (cached w) = None" and "promise (cached w) = None"
  shows "dials (snd (dbConnect (Some uri) connect w)) = dials w @ [(uri, connect_options)]"
proof (cases "connect (length (dials w)) uri connect_options")
  case (Inl error)
  with assms have "dbConnect (Some uri) connect w
    = (Inl (thrown_on_failure uri error),
       w\<lparr> cached := (cached w)\<lparr> promise := None \<rparr>, dials := dials w @ [(uri, connect_options)] \<rparr>)"
    by (rule dbConnect_dial_fails)
  then show ?thesis by simp
next
  case (Inr m)
  with assms have "dbConnect (Some uri) connect w
    = (Inr m, w\<lparr> cached := \<lparr> conn = Some m, promise = Some (Inr m) \<rparr>,
                  dials := dials w @ [(uri, connect_options)] \<rparr>)"
    by (rule dbConnect_dial_succeeds)
  then show ?thesis by simp
qed

text \<open>
  Claim C8. When the awaited connection attempt fails, \<^verbatim>\<open>dbConnect\<close> clears the promise of
  the cache, caches no connection, and throws: for an \<^verbatim>\<open>Error\<close> whose message matches the
  network pattern, the wrapped error, with the SRV text when the URI starts with
  \<^verbatim>\<open>mongodb+srv://\<close> and the network text otherwise; for any other value, the value itself.
  The next call makes a new attempt.
\<close>

theorem dbConnect_failure:
  assumes "uri \<noteq> []" and "conn (cached w) = None" and "awaited uri connect w = Inl error"
  shows "promise (cached (snd (dbConnect (Some uri) connect w))) = None
    \<and> conn (cached (snd (dbConnect (Some uri) connect w))) = None
    \<and> fst (dbConnect (Some uri) connect w) =
        Inl (case error of
               Error msg \<Rightarrow>
                 if network_pattern_test msg
                 then Wrapped msg (if prefix ''mongodb+srv://'' uri then SrvLookupFailed
                                   else NetworkUnreachable)
                 else Original error
             | NonError \<Rightarrow> Original error)
    \<and> dials (snd (dbConnect (Some uri) connect' (snd (dbConnect (Some uri) connect w))))
        = dials (snd (dbConnect (Some uri) connect w)) @ [(uri, connect_options)]"
proof (cases "promise (cached w)")
  case None
  with assms(3) have c: "connect (length (dials w)) uri connect_options = Inl error"
    by (simp add: awaited_def)
  from assms(1,2) None c have e: "dbConnect (Some uri) connect w
    = (Inl (thrown_on_failure uri error),
       w\<lparr> cached := (cached w)\<lparr> promise := None \<rparr>, dials := dials w @ [(uri, connect_options)] \<rparr>)"
    by (rule dbConnect_dial_fails)
  have "dials (snd (dbConnect (Some uri) connect' (snd (dbConnect (Some uri) connect w))))
        = dials (snd (dbConnect (Some uri) connect w)) @ [(uri, connect_options)]"
    by (rule dbConnect_dials_again) (simp_all add: e assms)
  then show ?thesis using assms(2) by (simp add: e thrown_on_failure_def)
next
  case (Some p)
  with assms(3) have p: "promise (cached w) = Some (Inl error)"
    by (simp add: awaited_def)
  from assms(1,2) p have e: "dbConnect (Some uri) connect w
    = (Inl (thrown_on_failure uri error), w\<lparr> cached := (cached w)\<lparr> promise := None \<rparr> \<rparr>)"
    by (rule dbConnect_in_flight_fails)
  have "dials (snd (dbConnect (Some uri) connect' (snd (dbConnect (Some uri) connect w))))
        = dials (snd (dbConnect (Some uri) connect w)) @ [(uri, connect_options)]"
    by (rule dbConnect_dials_again) (simp_all add: e assms)
  then show ?thesis using assms(2) by (simp add: e thrown_on_failure_def)
qed

lemma example_message_matches: "network_pattern_test ''querySrv ECONNREFUSED _mongodb._tcp.cluster0.mongodb.net''"
  by code_simp

theorem dbConnect_failure_witness:
  "''mongodb+srv://cluster0.mongodb.net/dev'' \<noteq> []
   \<and> conn (cached fresh_world) = None
   \<and> awaited ''mongodb+srv://cluster0.mongodb.net/dev'' failing_network fresh_world
       = Inl (Error ''querySrv ECONNREFUSED _mongodb._tcp.cluster0.mongodb.net'')
   \<and> promise (cached (snd (dbConnect (Some ''mongodb+srv://cluster0.mongodb.net/dev'')
        failing_network fresh_world))) = None
   \<and> fst (dbConnect (Some ''mongodb+srv://cluster0.mongodb.net/dev'') failing_network fresh_world)
       = Inl (Wrapped ''querySrv ECONNREFUSED _mongodb._tcp.cluster0.mongodb.net'' SrvLookupFailed)"
proof -
  have a: "awaited ''mongodb+srv://cluster0.mongodb.net/dev'' failing_network fresh_world
       = Inl (Error ''querySrv ECONNREFUSED _mongodb._tcp.cluster0.mongodb.net'')"
    by (simp add: awaited_def fresh_world_def failing_network_def)
  have c: "conn (cached fresh_world) = None" by (simp add: fresh_world_def)
  have n: "''mongodb+srv://cluster0.mongodb.net/dev'' \<noteq> []" by simp
  show ?thesis
    using dbConnect_failure [OF n c a] a c example_message_matches by simp
qed

section \<open>The Booking hook\<close>

text \<open>
  Claim C9. The hook looks the event up only when \<^verbatim>\<open>eventId\<close> is modified. Then it rejects
  with ``Referenced event does not exist'' when no such event is found; when the lookup
  itself throws it rejects with the error thrown (or with ``Failed to validate event
  reference'' for a value that is not an \<^verbatim>\<open>Error\<close>), so with an error other than the
  first unless the lookup threw that very error; and when the event is found the save
  proceeds with the document as it was.
\<close>

theorem booking_reference_check:
  "(\<not> isModified ''eventId'' \<longrightarrow> booking_pre_save isModified Event_exists b = (Inr b, []))
   \<and> (isModified ''eventId'' \<and> Event_exists (eventId b) = Inr True \<longrightarrow>
        booking_pre_save isModified Event_exists b = (Inr b, [eventId b]))
   \<and> (isModified ''eventId'' \<and> Event_exists (eventId b) = Inr False \<longrightarrow>
        booking_pre_save isModified Event_exists b
          = (Inl (Error ''Referenced event does not exist''), [eventId b]))
   \<and> (isModified ''eventId'' \<and> Event_exists (eventId b) = Inl failure \<longrightarrow>
        booking_pre_save isModified Event_exists b
          = (Inl (case failure of Error msg \<Rightarrow> Error msg
                  | NonError \<Rightarrow> Error ''Failed to validate event reference''), [eventId b])
        \<and> (failure \<noteq> Error ''Referenced event does not exist'' \<longrightarrow>
             fst (booking_pre_save isModified Event_exists b)
               \<noteq> Inl (Error ''Referenced event does not exist'')))"
  by (cases failure) (simp_all add: booking_pre_save_def)

theorem booking_reference_check_witness:
  "booking_pre_save (\<lambda>path. False) (\<lambda>id. Inr False) sample_booking = (Inr sample_booking, [])
   \<and> booking_pre_save (\<lambda>path. path = ''eventId'') (\<lambda>id. Inr (id = 7)) sample_booking
       = (Inr sample_booking, [7])
   \<and> booking_pre_save (\<lambda>path. path = ''eventId'') (\<lambda>id. Inr (id = 8)) sample_booking
       = (Inl (Error ''Referenced event does not exist''), [7])
   \<and> booking_pre_save (\<lambda>path. path = ''eventId'')
         (\<lambda>id. Inl (Error ''connection closed'')) sample_booking
       = (Inl (Error ''connection closed''), [7])"
  using booking_reference_check [of "\<lambda>path. False" "\<lambda>id. Inr False" sample_booking NonError]
    booking_reference_check [of "\<lambda>path. path = ''eventId''" "\<lambda>id. Inr (id = 7)" sample_booking NonError]
    booking_reference_check [of "\<lambda>path. path = ''eventId''" "\<lambda>id. Inr (id = 8)" sample_booking NonError]
    booking_reference_check [of "\<lambda>path. path = ''eventId''" "\<lambda>id. Inl (Error ''connection closed'')"
      sample_booking "Error ''connection closed''"]
  by (simp add: sample_booking_def)

section \<open>The route\<close>

lemma sample_create: "Event_create [] (coerce_array_fields (Object_fromEntries sample_form))
   = Inr (sample_event, [sample_event])"
  by code_simp

lemma dbConnect_events: "events (snd (dbConnect configured connect w)) = events w"
  by (simp add: dbConnect_def Let_def split: option.split sum.split thrown.split prod.split)

lemma Event_create_store:
  "Event_create store obj = Inr (doc, store') \<Longrightarrow> store' = store @ [doc]"
  by (auto simp: Event_create_def split: sum.splits if_splits)

lemma deleteOne_slug_complete:
  "distinct (map slug store) \<Longrightarrow> \<not> exists_slug (deleteOne_slug s store) s"
proof (induction store)
  case Nil
  then show ?case by (simp add: exists_slug_def)
next
  case (Cons e es)
  then show ?case
    by (auto simp: exists_slug_def list_ex_iff image_iff)
qed

lemma deleteOne_slug_others:
  "filter (\<lambda>e. slug e \<noteq> Some s) (deleteOne_slug s store) = filter (\<lambda>e. slug e \<noteq> Some s) store"
  by (induction store) auto

lemma POST_events_cleanup:
  assumes "cleanup_enabled env" and "fst (dbConnect (MONGODB_URI env) connect w) = Inr m"
  shows "events (snd (POST env connect w (Some form)))
    = (case Event_create (deleteOne_slug ''cloud-next-2026'' (events w))
              (coerce_array_fields (Object_fromEntries form)) of
         Inr (made, store) \<Rightarrow> store
       | Inl e \<Rightarrow> deleteOne_slug ''cloud-next-2026'' (events w))"
proof -
  obtain w1 where d: "dbConnect (MONGODB_URI env) connect w = (Inr m, w1)"
    using assms(2) by (cases "dbConnect (MONGODB_URI env) connect w") simp
  then have e: "events w1 = events w" using dbConnect_events [of "MONGODB_URI env" connect w] by simp
  from assms(1) have c: "NODE_ENV env = Some ''test'' \<or> CLEANUP_TEST_EVENTS env = Some ''true''"
    by (simp add: cleanup_enabled_def)
  show ?thesis
    using c by (simp add: POST_def d e Let_def split: sum.split create_error.split prod.split)
qed

lemma POST_events_no_cleanup:
  assumes "\<not> cleanup_enabled env"
  shows "events (snd (POST env connect w req)) = events w
    \<or> (\<exists>made. events (snd (POST env connect w req)) = events w @ [made])"
proof (cases "dbConnect (MONGODB_URI env) connect w")
  case (Pair r w1)
  then have e: "events w1 = events w" using dbConnect_events [of "MONGODB_URI env" connect w] by simp
  from assms have c: "\<not> (NODE_ENV env = Some ''test'' \<or> CLEANUP_TEST_EVENTS env = Some ''true'')"
    by (simp add: cleanup_enabled_def)
  show ?thesis
  proof (cases r)
    case (Inl err)
    then show ?thesis by (simp add: POST_def Pair e)
  next
    case (Inr m)
    show ?thesis
    proof (cases req)
      case None
      then show ?thesis by (simp add: POST_def Pair Inr e)
    next
      case (Some form)
      show ?thesis
      proof (cases "Event_create (events w) (coerce_array_fields (Object_fromEntries form))")
        case (Inl err)
        then show ?thesis using c
          by (cases err) (simp_all add: POST_def Pair Inr Some e Let_def)
      next
        case (Inr ok)
        obtain made store where ok: "ok = (made, store)" by (cases ok)
        with Inr have "store = events w @ [made]" using Event_create_store by blast
        with Inr ok show ?thesis using c
          by (simp add: POST_def Pair \<open>r = Inr m\<close> Some e Let_def)
      qed
    qed
  qed
qed

subsection \<open>The list fields of a created event\<close>

lemma slug_step_lists:
  "agenda (slug_step isModified store doc) = agenda doc"
  "tags (slug_step isModified store doc) = tags doc"
  by (simp_all add: slug_step_def Let_def)

lemma date_step_lists:
  assumes "date_step isModified doc = Inr d"
  shows "agenda d = agenda doc" "tags d = tags doc"
  using assms by (auto simp: date_step_def split: if_splits sum.splits)

lemma time_step_lists:
  assumes "time_step isModified doc = Inr d"
  shows "agenda d = agenda doc" "tags d = tags doc"
  using assms by (auto simp: time_step_def split: if_splits sum.splits)

lemma pre_validate_lists:
  assumes "pre_validate isModified store doc = Inr d"
  shows "agenda d = agenda doc" "tags d = tags doc"
proof -
  from assms obtain d1 where 1: "date_step isModified (slug_step isModified store doc) = Inr d1"
    and 2: "time_step isModified d1 = Inr d"
    unfolding pre_validate_def by (auto split: sum.splits)
  show "agenda d = agenda doc"
    using time_step_lists(1) [OF 2] date_step_lists(1) [OF 1] by (simp add: slug_step_lists)
  show "tags d = tags doc"
    using time_step_lists(2) [OF 2] date_step_lists(2) [OF 1] by (simp add: slug_step_lists)
qed

lemma Event_create_lists:
  assumes "Event_create store obj = Inr (doc, st)"
  shows "agenda doc = array_path obj ''agenda''" "tags doc = array_path obj ''tags''"
proof -
  from assms have p: "pre_validate (\<lambda>path. obj path \<noteq> None) store (new_Event obj) = Inr doc"
    unfolding Event_create_def by (auto split: sum.splits if_splits)
  show "agenda doc = array_path obj ''agenda''"
    using pre_validate_lists(1) [OF p] by (simp add: new_Event_lists)
  show "tags doc = array_path obj ''tags''"
    using pre_validate_lists(2) [OF p] by (simp add: new_Event_lists)
qed

lemma POST_connected:
  assumes "fst (dbConnect (MONGODB_URI env) connect w) = Inr m"
  shows "POST env connect w (Some form)
    = (let w1 = snd (dbConnect (MONGODB_URI env) connect w);
           store = (if cleanup_enabled env then deleteOne_slug ''cloud-next-2026'' (events w)
                    else events w)
       in case Event_create store (coerce_array_fields (Object_fromEntries form)) of
            Inr (doc, st) \<Rightarrow>
              (\<lparr> status = 201, message = ''Event Created Successfully'', event = Some doc \<rparr>,
               w1\<lparr> events := st \<rparr>)
          | Inl (DuplicateKey field) \<Rightarrow>
              (\<lparr> status = 409, message = ''Duplicate value error'', event = None \<rparr>,
               w1\<lparr> events := store \<rparr>)
          | Inl (ValidationError paths) \<Rightarrow>
              (\<lparr> status = 400, message = ''Validation failed'', event = None \<rparr>,
               w1\<lparr> events := store \<rparr>)
          | Inl (Thrown err) \<Rightarrow>
              (\<lparr> status = 500, message = ''Event Creation Failed'', event = None \<rparr>,
               w1\<lparr> events := store \<rparr>))"
proof -
  obtain w1 where d: "dbConnect (MONGODB_URI env) connect w = (Inr m, w1)"
    using assms by (cases "dbConnect (MONGODB_URI env) connect w") simp
  then have e: "events w1 = events w" using dbConnect_events [of "MONGODB_URI env" connect w] by simp
  have c: "(NODE_ENV env = Some ''test'' \<or> CLEANUP_TEST_EVENTS env = Some ''true'') = cleanup_enabled env"
    by (simp add: cleanup_enabled_def)
  have k: "w1\<lparr>events := events w\<rparr> = w1" using e by simp
  show ?thesis
    unfolding POST_def d c
    by (simp add: e k Let_def split: sum.split create_error.split prod.split)
qed

lemma POST_event_connected:
  assumes "event (fst (POST env connect w req)) = Some doc"
  shows "\<exists>m. fst (dbConnect (MONGODB_URI env) connect w) = Inr m"
proof (cases "dbConnect (MONGODB_URI env) connect w")
  case (Pair r w1)
  show ?thesis
  proof (cases r)
    case (Inl err)
    with Pair assms show ?thesis by (simp add: POST_def)
  next
    case (Inr m)
    with Pair show ?thesis by simp
  qed
qed

lemma POST_created:
  assumes "event (fst (POST env connect w (Some form))) = Some doc"
  shows "status (fst (POST env connect w (Some form))) = 201
    \<and> Event_create (if cleanup_enabled env then deleteOne_slug ''cloud-next-2026'' (events w)
                     else events w) (coerce_array_fields (Object_fromEntries form))
        = Inr (doc, events (snd (POST env connect w (Some form))))"
proof -
  obtain m where m: "fst (dbConnect (MONGODB_URI env) connect w) = Inr m"
    using POST_event_connected [OF assms] by blast
  define store where "store = (if cleanup_enabled env
    then deleteOne_slug ''cloud-next-2026'' (events w) else events w)"
  define r where "r = Event_create store (coerce_array_fields (Object_fromEntries form))"
  have p: "POST env connect w (Some form)
    = (case r of
            Inr (doc, st) \<Rightarrow>
              (\<lparr> status = 201, message = ''Event Created Successfully'', event = Some doc \<rparr>,
               (snd (dbConnect (MONGODB_URI env) connect w))\<lparr> events := st \<rparr>)
          | Inl (DuplicateKey field) \<Rightarrow>
              (\<lparr> status = 409, message = ''Duplicate value error'', event = None \<rparr>,
               (snd (dbConnect (MONGODB_URI env) connect w))\<lparr> events := store \<rparr>)
          | Inl (ValidationError paths) \<Rightarrow>
              (\<lparr> status = 400, message = ''Validation failed'', event = None \<rparr>,
               (snd (dbConnect (MONGODB_URI env) connect w))\<lparr> events := store \<rparr>)
          | Inl (Thrown err) \<Rightarrow>
              (\<lparr> status = 500, message = ''Event Creation Failed'', event = None \<rparr>,
               (snd (dbConnect (MONGODB_URI env) connect w))\<lparr> events := store \<rparr>))"
    unfolding POST_connected [of env connect w m form, OF m] Let_def r_def store_def ..
  have "status (fst (POST env connect w (Some form))) = 201
    \<and> r = Inr (doc, events (snd (POST env connect w (Some form))))"
    using assms unfolding p
    by (auto split: sum.splits create_error.splits prod.splits)
  then show ?thesis unfolding r_def store_def .
qed

text \<open>
  Claim C6. An \<^verbatim>\<open>agenda\<close> or \<^verbatim>\<open>tags\<close> field submitted as one string reaches the
  creation as the list of its comma-separated segments, each trimmed, the empty ones
  dropped. The coercion gives the field that list; \<^verbatim>\<open>Event.create\<close> on the coerced
  object stores it unchanged; and \<^verbatim>\<open>POST\<close>, once connected, answers with the outcome of
  \<^verbatim>\<open>Event.create\<close> on the coerced object of the form, so that every event a response
  carries has the list of segments in that field, comes with status 201 and is among
  the stored events.
\<close>

theorem comma_list_coercion:
  assumes "key = ''agenda'' \<or> key = ''tags''" and "obj key = Some (Str v)"
  shows "coerce_array_fields obj key = Some (Arr (split_trim_drop v))
    \<and> array_path (coerce_array_fields obj) key = split_trim_drop v
    \<and> (\<forall>store doc st. Event_create store (coerce_array_fields obj) = Inr (doc, st) \<longrightarrow>
          (if key = ''agenda'' then agenda doc else tags doc) = split_trim_drop v)
    \<and> (obj = Object_fromEntries form \<longrightarrow>
         (\<forall>m. fst (dbConnect (MONGODB_URI env) connect w) = Inr m \<longrightarrow>
            event (fst (POST env connect w (Some form)))
              = (case Event_create
                        (if cleanup_enabled env
                         then deleteOne_slug ''cloud-next-2026'' (events w) else events w)
                        (coerce_array_fields (Object_fromEntries form)) of
                   Inr (doc, st) \<Rightarrow> Some doc
                 | Inl e \<Rightarrow> None))
         \<and> (\<forall>doc. event (fst (POST env connect w (Some form))) = Some doc \<longrightarrow>
              (if key = ''agenda'' then agenda doc else tags doc) = split_trim_drop v
              \<and> status (fst (POST env connect w (Some form))) = 201
              \<and> doc \<in> set (events (snd (POST env connect w (Some form))))))"
proof -
  have a: "coerce_array_fields obj key = Some (Arr (split_trim_drop v))"
    and b: "array_path (coerce_array_fields obj) key = split_trim_drop v"
    using coerce_array_fields_segments [of key obj v] assms by simp_all
  have c: "(if key = ''agenda'' then agenda doc else tags doc) = split_trim_drop v"
    if "Event_create store (coerce_array_fields obj) = Inr (doc, st)" for store doc st
    using Event_create_lists [OF that] assms(1) b by auto
  have d: "event (fst (POST env connect w (Some form)))
              = (case Event_create
                        (if cleanup_enabled env
                         then deleteOne_slug ''cloud-next-2026'' (events w) else events w)
                        (coerce_array_fields (Object_fromEntries form)) of
                   Inr (doc, st) \<Rightarrow> Some doc
                 | Inl e \<Rightarrow> None)"
    if "fst (dbConnect (MONGODB_URI env) connect w) = Inr m" for m
    unfolding POST_connected [of env connect w m form, OF that] Let_def
    by (simp split: sum.split create_error.split prod.split)
  have e: "(if key = ''agenda'' then agenda doc else tags doc) = split_trim_drop v
              \<and> status (fst (POST env connect w (Some form))) = 201
              \<and> doc \<in> set (events (snd (POST env connect w (Some form))))"
    if o: "obj = Object_fromEntries form"
      and p: "event (fst (POST env connect w (Some form))) = Some doc" for doc
  proof -
    from POST_created [OF p] have s: "status (fst (POST env connect w (Some form))) = 201"
      and cr: "Event_create (if cleanup_enabled env then deleteOne_slug ''cloud-next-2026'' (events w)
                     else events w) (coerce_array_fields obj)
        = Inr (doc, events (snd (POST env connect w (Some form))))"
      unfolding o by simp_all
    from Event_create_store [OF cr] have "doc \<in> set (events (snd (POST env connect w (Some form))))"
      by simp
    with c [OF cr] s show ?thesis by simp
  qed
  from a b c d e show ?thesis by blast
qed

lemma sample_agenda: "Object_fromEntries sample_form ''agenda'' = Some (Str ''Keynote, Workshops'')"
  by code_simp

lemma sample_segments: "split_trim_drop ''a, b ,,c'' = [''a'', ''b'', ''c'']"
  by (simp add: split_trim_drop_def trim_def trimStart_def trimEnd_def isWhiteSpace_def)

lemma sample_agenda_segments: "split_trim_drop ''Keynote, Workshops'' = [''Keynote'', ''Workshops'']"
  by (simp add: split_trim_drop_def trim_def trimStart_def trimEnd_def isWhiteSpace_def)

theorem comma_list_coercion_witness:
  "coerce_array_fields [''agenda'' \<mapsto> Str ''a, b ,,c''] ''agenda'' = Some (Arr [''a'', ''b'', ''c''])
   \<and> agenda (new_Event (coerce_array_fields [''agenda'' \<mapsto> Str ''a, b ,,c''])) = [''a'', ''b'', ''c'']
   \<and> Object_fromEntries sample_form ''agenda'' = Some (Str ''Keynote, Workshops'')
   \<and> fst (dbConnect (MONGODB_URI (env_of None None)) (\<lambda>n uri opts. Inr Mongoose) (connected_world []))
       = Inr Mongoose
   \<and> event (fst (POST (env_of None None) (\<lambda>n uri opts. Inr Mongoose) (connected_world [])
                   (Some sample_form))) = Some sample_event
   \<and> agenda sample_event = [''Keynote'', ''Workshops'']
   \<and> status (fst (POST (env_of None None) (\<lambda>n uri opts. Inr Mongoose) (connected_world [])
                   (Some sample_form))) = 201
   \<and> sample_event \<in> set (events (snd (POST (env_of None None) (\<lambda>n uri opts. Inr Mongoose)
                   (connected_world []) (Some sample_form))))"
proof -
  have b: "fst (dbConnect (MONGODB_URI (env_of None None)) (\<lambda>n uri opts. Inr Mongoose)
            (connected_world [])) = Inr Mongoose"
    by (simp add: dbConnect_def env_of_def connected_world_def)
  have c: "\<not> cleanup_enabled (env_of None None)"
    by (simp add: cleanup_enabled_def env_of_def)
  have f: "events (connected_world []) = []"
    by (simp add: connected_world_def)
  have o: "[''agenda'' \<mapsto> Str ''a, b ,,c''] ''agenda'' = Some (Str ''a, b ,,c'')" by simp
  note th1 = comma_list_coercion [of "''agenda''" "[''agenda'' \<mapsto> Str ''a, b ,,c'']" "''a, b ,,c''"
      "[]" "env_of None None" "\<lambda>n uri opts. Inr Mongoose" "connected_world []", OF _ o]
  note th2 = comma_list_coercion [of "''agenda''" "Object_fromEntries sample_form"
      "''Keynote, Workshops''" sample_form "env_of None None" "\<lambda>n uri opts. Inr Mongoose"
      "connected_world []", OF _ sample_agenda]
  have e: "event (fst (POST (env_of None None) (\<lambda>n uri opts. Inr Mongoose) (connected_world [])
                   (Some sample_form))) = Some sample_event"
    using th2 b by (simp add: c f sample_create)
  from th1 have 1: "coerce_array_fields [''agenda'' \<mapsto> Str ''a, b ,,c''] ''agenda''
      = Some (Arr [''a'', ''b'', ''c''])"
    and 2: "array_path (coerce_array_fields [''agenda'' \<mapsto> Str ''a, b ,,c'']) ''agenda''
      = [''a'', ''b'', ''c'']"
    by (simp_all add: sample_segments)
  from th2 e have 3: "agenda sample_event = [''Keynote'', ''Workshops'']
     \<and> status (fst (POST (env_of None None) (\<lambda>n uri opts. Inr Mongoose) (connected_world [])
                   (Some sample_form))) = 201
     \<and> sample_event \<in> set (events (snd (POST (env_of None None) (\<lambda>n uri opts. Inr Mongoose)
                   (connected_world []) (Some sample_form))))"
    by (simp add: sample_agenda_segments)
  from 1 2 3 e b show ?thesis by (simp add: new_Event_lists sample_agenda)
qed

subsection \<open>The cleanup of the test event\<close>

text \<open>
  Claim C10. With \<^verbatim>\<open>NODE_ENV\<close> equal to \<^verbatim>\<open>test\<close> or \<^verbatim>\<open>CLEANUP_TEST_EVENTS\<close> equal to
  \<^verbatim>\<open>true\<close>, a request that reaches the creation (the connection is there and the form is
  read) creates its event on the store from which \<^verbatim>\<open>deleteOne\<close> has removed the event with
  slug \<^verbatim>\<open>cloud-next-2026\<close>: under the unique index no event of that slug is left, and
  the events of other slugs are untouched. With neither flag set, every request leaves
  the stored events in place, adding at most the created one at the end.
\<close>

theorem POST_test_cleanup:
  "(cleanup_enabled env \<and> fst (dbConnect (MONGODB_URI env) connect w) = Inr m \<longrightarrow>
      events (snd (POST env connect w (Some form)))
        = (case Event_create (deleteOne_slug ''cloud-next-2026'' (events w))
                  (coerce_array_fields (Object_fromEntries form)) of
             Inr (made, store) \<Rightarrow> store
           | Inl e \<Rightarrow> deleteOne_slug ''cloud-next-2026'' (events w))
      \<and> (distinct (map slug (events w)) \<longrightarrow>
           \<not> exists_slug (deleteOne_slug ''cloud-next-2026'' (events w)) ''cloud-next-2026'')
      \<and> filter (\<lambda>e. slug e \<noteq> Some ''cloud-next-2026'')
            (deleteOne_slug ''cloud-next-2026'' (events w))
          = filter (\<lambda>e. slug e \<noteq> Some ''cloud-next-2026'') (events w))
   \<and> (\<not> cleanup_enabled env \<longrightarrow> prefix (events w) (events (snd (POST env connect w req))))"
proof (intro conjI impI)
  assume "cleanup_enabled env \<and> fst (dbConnect (MONGODB_URI env) connect w) = Inr m"
  then show "events (snd (POST env connect w (Some form)))
        = (case Event_create (deleteOne_slug ''cloud-next-2026'' (events w))
                  (coerce_array_fields (Object_fromEntries form)) of
             Inr (made, store) \<Rightarrow> store
           | Inl e \<Rightarrow> deleteOne_slug ''cloud-next-2026'' (events w))"
    using POST_events_cleanup by blast
next
  assume "distinct (map slug (events w))"
  then show "\<not> exists_slug (deleteOne_slug ''cloud-next-2026'' (events w)) ''cloud-next-2026''"
    by (rule deleteOne_slug_complete)
next
  show "filter (\<lambda>e. slug e \<noteq> Some ''cloud-next-2026'')
            (deleteOne_slug ''cloud-next-2026'' (events w))
          = filter (\<lambda>e. slug e \<noteq> Some ''cloud-next-2026'') (events w)"
    by (rule deleteOne_slug_others)
next
  assume "\<not> cleanup_enabled env"
  then show "prefix (events w) (events (snd (POST env connect w req)))"
    using POST_events_no_cleanup [of env connect w req] by (auto simp: prefix_def)
qed


theorem POST_test_cleanup_witness:
  "cleanup_enabled (env_of (Some ''test'') None)
   \<and> fst (dbConnect (MONGODB_URI (env_of (Some ''test'') None)) (\<lambda>n uri opts. Inr Mongoose)
            (connected_world [sample_event])) = Inr Mongoose
   \<and> distinct (map slug (events (connected_world [sample_event])))
   \<and> events (snd (POST (env_of (Some ''test'') None) (\<lambda>n uri opts. Inr Mongoose)
                 (connected_world [sample_event]) (Some sample_form))) = [sample_event]
   \<and> \<not> cleanup_enabled (env_of (Some ''production'') None)
   \<and> prefix [sample_event]
        (events (snd (POST (env_of (Some ''production'') None) (\<lambda>n uri opts. Inr Mongoose)
                 (connected_world [sample_event]) (Some sample_form))))"
proof -
  have a: "cleanup_enabled (env_of (Some ''test'') None)"
    by (simp add: cleanup_enabled_def env_of_def)
  have b: "fst (dbConnect (MONGODB_URI (env_of (Some ''test'') None)) (\<lambda>n uri opts. Inr Mongoose)
            (connected_world [sample_event])) = Inr Mongoose"
    by (simp add: dbConnect_def env_of_def connected_world_def)
  have c: "distinct (map slug (events (connected_world [sample_event])))"
    by (simp add: connected_world_def)
  have d: "\<not> cleanup_enabled (env_of (Some ''production'') None)"
    by (simp add: cleanup_enabled_def env_of_def)
  have e: "slug sample_event = Some ''cloud-next-2026''"
    by (simp add: sample_event_def)
  have f: "events (connected_world [sample_event]) = [sample_event]"
    by (simp add: connected_world_def)
  show ?thesis
    using POST_test_cleanup [of "env_of (Some ''test'') None" "\<lambda>n uri opts. Inr Mongoose"
        "connected_world [sample_event]" Mongoose sample_form None]
      POST_test_cleanup [of "env_of (Some ''production'') None" "\<lambda>n uri opts. Inr Mongoose"
        "connected_world [sample_event]" Mongoose sample_form "Some sample_form"]
      a b c d
    by (simp add: e f sample_create)
qed

section \<open>The time of a created event\<close>

lemma slug_step_time: "time (slug_step isModified store doc) = time doc"
  by (simp add: slug_step_def Let_def)

lemma date_step_time: "date_step isModified doc = Inr d \<Longrightarrow> time d = time doc"
  by (auto simp: date_step_def split: if_splits sum.splits)

lemma timeRegex_test_parts:
  assumes "timeRegex_test (h @ '':'' @ m)"
  shows "hour_text h \<and> minute_text m"
proof -
  from assms obtain h' m' where e: "h @ '':'' @ m = h' @ '':'' @ m'" and hm: "hour_text h'" "minute_text m'"
    using timeRegex_test_imp by blast
  have "CHR '':'' \<notin> set h'" "CHR '':'' \<notin> set m'"
    using hm by (simp_all add: hour_text_def minute_text_def digits_no_colon)
  with e have "h = h' \<and> m = m'" using sep_decomposition_unique [of h "CHR '':''" m h' m'] by simp
  with hm show ?thesis by simp
qed

lemma normalize_time_accepts_only:
  assumes "normalize_time (Some (h @ '':'' @ m)) = Inr t"
  shows "hour_text h \<and> minute_text m \<and> t = padStart 2 CHR ''0'' h @ '':'' @ m"
proof -
  have "timeRegex_test (h @ '':'' @ m)"
    using assms by (auto simp: normalize_time_def toString_def split: if_splits)
  then have hm: "hour_text h \<and> minute_text m" by (rule timeRegex_test_parts)
  with normalize_time_clock [of h m] assms show ?thesis by simp
qed

lemma time_step_eq:
  "isModified ''time'' \<Longrightarrow> time_step isModified doc
     = (case normalize_time (time doc) of Inl e \<Rightarrow> Inl e | Inr t \<Rightarrow> Inr (doc\<lparr>time := Some t\<rparr>))"
  by (simp add: time_step_def)

lemma pre_validate_time:
  assumes "isModified ''time''"
  shows "pre_validate isModified store doc
     = (case date_step isModified (slug_step isModified store doc) of
          Inl e \<Rightarrow> Inl e
        | Inr d \<Rightarrow> (case normalize_time (time doc) of
                     Inl e \<Rightarrow> Inl e | Inr t \<Rightarrow> Inr (d\<lparr>time := Some t\<rparr>)))"
proof (cases "date_step isModified (slug_step isModified store doc)")
  case (Inl e)
  then show ?thesis by (simp add: pre_validate_def)
next
  case (Inr d)
  then have "time d = time doc" using date_step_time [OF Inr] by (simp add: slug_step_time)
  then show ?thesis by (simp add: pre_validate_def Inr time_step_eq [of isModified, OF assms])
qed

lemma new_Event_time: "time (new_Event obj) = string_path obj ''time''"
  by (simp add: new_Event_def)

lemma Event_create_time:
  assumes "obj ''time'' = Some (Str s)" and "Event_create store obj = Inr (doc, st)"
  shows "normalize_time (Some s) = Inr (the (time doc)) \<and> time doc \<noteq> None"
proof -
  let ?m = "\<lambda>path. obj path \<noteq> None"
  have m: "?m ''time''" using assms(1) by simp
  from assms(2) have p: "pre_validate ?m store (new_Event obj) = Inr doc"
    unfolding Event_create_def by (auto split: sum.splits if_splits)
  have t: "time (new_Event obj) = Some s"
    using assms(1) by (simp add: new_Event_time string_path_def)
  from p show ?thesis
    unfolding pre_validate_time [of ?m, OF m] t
    by (auto split: sum.splits)
qed

text \<open>
  Claim C4. A time written \<open>H:MM\<close> or \<open>HH:MM\<close> with an hour from 0 to 23 and a two-digit
  minute from 00 to 59 passes the time step of the hook, which stores it back with the
  hour padded with a zero to two digits; a text whose hour part is not an hour from 0 to
  23 makes the step, and with it the hook, throw \<^verbatim>\<open>Time must be in HH:MM format\<close>. So
  \<^verbatim>\<open>Event.create\<close> on an object with such a time fails when the hour is out of range, and
  every event it creates has a time in range, stored padded.
\<close>

theorem time_normalization:
  "(hour_text h \<and> minute_text m \<longrightarrow>
      normalize_time (Some (h @ '':'' @ m)) = Inr (padStart 2 CHR ''0'' h @ '':'' @ m)
      \<and> length (padStart 2 CHR ''0'' h) = 2)
   \<and> (\<not> hour_text h \<longrightarrow>
      normalize_time (Some (h @ '':'' @ m)) = Inl (Error ''Time must be in HH:MM format''))
   \<and> (isModified ''time'' \<and> time doc = Some (h @ '':'' @ m) \<longrightarrow>
        (hour_text h \<and> minute_text m \<longrightarrow>
           time_step isModified doc = Inr (doc\<lparr>time := Some (padStart 2 CHR ''0'' h @ '':'' @ m)\<rparr>)
           \<and> pre_validate isModified store doc
             = (case date_step isModified (slug_step isModified store doc) of
                  Inl e \<Rightarrow> Inl e
                | Inr d \<Rightarrow> Inr (d\<lparr>time := Some (padStart 2 CHR ''0'' h @ '':'' @ m)\<rparr>)))
        \<and> (\<not> hour_text h \<longrightarrow>
           time_step isModified doc = Inl (Error ''Time must be in HH:MM format'')
           \<and> pre_validate isModified store doc
             = (case date_step isModified (slug_step isModified store doc) of
                  Inl e \<Rightarrow> Inl e
                | Inr d \<Rightarrow> Inl (Error ''Time must be in HH:MM format''))))
   \<and> (obj ''time'' = Some (Str (h @ '':'' @ m)) \<longrightarrow>
        (\<forall>created st. Event_create stored obj = Inr (created, st) \<longrightarrow>
           hour_text h \<and> minute_text m
           \<and> time created = Some (padStart 2 CHR ''0'' h @ '':'' @ m))
        \<and> (\<not> hour_text h \<longrightarrow> (\<exists>e. Event_create stored obj = Inl e)))"
proof (intro conjI impI allI)
  assume "hour_text h \<and> minute_text m"
  then show "normalize_time (Some (h @ '':'' @ m)) = Inr (padStart 2 CHR ''0'' h @ '':'' @ m)"
    "length (padStart 2 CHR ''0'' h) = 2"
    using normalize_time_clock [of h m] by simp_all
next
  assume "\<not> hour_text h"
  then show "normalize_time (Some (h @ '':'' @ m)) = Inl (Error ''Time must be in HH:MM format'')"
    using normalize_time_clock [of h m] by simp
next
  assume a: "isModified ''time'' \<and> time doc = Some (h @ '':'' @ m)" and v: "hour_text h \<and> minute_text m"
  from v have n: "normalize_time (Some (h @ '':'' @ m)) = Inr (padStart 2 CHR ''0'' h @ '':'' @ m)"
    using normalize_time_clock [of h m] by simp
  from a have im: "isModified ''time''" and td: "time doc = Some (h @ '':'' @ m)" by simp_all
  show "time_step isModified doc = Inr (doc\<lparr>time := Some (padStart 2 CHR ''0'' h @ '':'' @ m)\<rparr>)"
    unfolding time_step_eq [of isModified, OF im] td n by simp
  show "pre_validate isModified store doc
             = (case date_step isModified (slug_step isModified store doc) of
                  Inl e \<Rightarrow> Inl e
                | Inr d \<Rightarrow> Inr (d\<lparr>time := Some (padStart 2 CHR ''0'' h @ '':'' @ m)\<rparr>))"
    unfolding pre_validate_time [of isModified, OF im] td n by (simp split: sum.splits)
next
  assume a: "isModified ''time'' \<and> time doc = Some (h @ '':'' @ m)" and v: "\<not> hour_text h"
  from v have n: "normalize_time (Some (h @ '':'' @ m)) = Inl (Error ''Time must be in HH:MM format'')"
    using normalize_time_clock [of h m] by simp
  from a have im: "isModified ''time''" and td: "time doc = Some (h @ '':'' @ m)" by simp_all
  show "time_step isModified doc = Inl (Error ''Time must be in HH:MM format'')"
    unfolding time_step_eq [of isModified, OF im] td n by simp
  show "pre_validate isModified store doc
             = (case date_step isModified (slug_step isModified store doc) of
                  Inl e \<Rightarrow> Inl e
                | Inr d \<Rightarrow> Inl (Error ''Time must be in HH:MM format''))"
    unfolding pre_validate_time [of isModified, OF im] td n by (simp split: sum.splits)
next
  fix created st
  assume o: "obj ''time'' = Some (Str (h @ '':'' @ m))"
    and c: "Event_create stored obj = Inr (created, st)"
  from Event_create_time [OF o c]
  have n: "normalize_time (Some (h @ '':'' @ m)) = Inr (the (time created))" and s: "time created \<noteq> None"
    by simp_all
  from normalize_time_accepts_only [OF n] s
  show "hour_text h" "minute_text m" "time created = Some (padStart 2 CHR ''0'' h @ '':'' @ m)"
    by auto
next
  assume o: "obj ''time'' = Some (Str (h @ '':'' @ m))" and v: "\<not> hour_text h"
  show "\<exists>e. Event_create stored obj = Inl e"
  proof (cases "Event_create stored obj")
    case (Inl e)
    then show ?thesis by blast
  next
    case (Inr ok)
    obtain created st where "ok = (created, st)" by (cases ok)
    with Inr have c: "Event_create stored obj = Inr (created, st)" by simp
    from Event_create_time [OF o c]
    have n: "normalize_time (Some (h @ '':'' @ m)) = Inr (the (time created))" by simp
    from normalize_time_accepts_only [OF n] v show ?thesis by simp
  qed
qed

lemma late_hour_rejected:
  "Event_create [] (sample_candidate(''time'' \<mapsto> Str ''24:00''))
     = Inl (Thrown (Error ''Time must be in HH:MM format''))"
  by code_simp

theorem time_normalization_witness:
  "(hour_text ''9'' \<and> minute_text ''05'') \<and> normalize_time (Some ''9:05'') = Inr ''09:05''
   \<and> \<not> hour_text ''24'' \<and> normalize_time (Some ''24:00'') = Inl (Error ''Time must be in HH:MM format'')
   \<and> time_step (\<lambda>path. path = ''time'') (sample_event\<lparr>time := Some ''9:05''\<rparr>) = Inr sample_event
   \<and> time_step (\<lambda>path. path = ''time'') (sample_event\<lparr>time := Some ''24:00''\<rparr>)
       = Inl (Error ''Time must be in HH:MM format'')
   \<and> pre_validate (\<lambda>path. path = ''time'') [] (sample_event\<lparr>time := Some ''9:05''\<rparr>) = Inr sample_event
   \<and> pre_validate (\<lambda>path. path = ''time'') [] (sample_event\<lparr>time := Some ''24:00''\<rparr>)
       = Inl (Error ''Time must be in HH:MM format'')
   \<and> sample_candidate ''time'' = Some (Str ''9:05'')
   \<and> Event_create [] sample_candidate = Inr (sample_event, [sample_event])
   \<and> time sample_event = Some ''09:05''
   \<and> Event_create [] (sample_candidate(''time'' \<mapsto> Str ''24:00''))
       = Inl (Thrown (Error ''Time must be in HH:MM format''))"
proof -
  have a: "hour_text ''9'' \<and> minute_text ''05''"
    by (simp add: hour_text_def minute_text_def isDigit_def decimal_def digit_val_def)
  have b: "\<not> hour_text ''24''"
    by (simp add: hour_text_def isDigit_def decimal_def digit_val_def)
  have c: "sample_candidate ''time'' = Some (Str ''9:05'')" by code_simp
  have d: "Event_create [] sample_candidate = Inr (sample_event, [sample_event])"
    unfolding sample_candidate_def by (rule sample_create)
  have s: "date_step (\<lambda>path. path = ''time'') (slug_step (\<lambda>path. path = ''time'') [] doc) = Inr doc"
    if "slug doc = Some ''cloud-next-2026''" for doc
    using that by (simp add: date_step_def slug_step_def falsy_def)
  have e: "slug (sample_event\<lparr>time := Some t\<rparr>) = Some ''cloud-next-2026''" for t
    by (simp add: sample_event_def)
  have f: "sample_event\<lparr>time := Some ''09:05''\<rparr> = sample_event" by (simp add: sample_event_def)
  from time_normalization [of "''9''" "''05''" "\<lambda>path. path = ''time''"
      "sample_event\<lparr>time := Some ''9:05''\<rparr>" "[]" sample_candidate "[]"]
    time_normalization [of "''24''" "''00''" "\<lambda>path. path = ''time''"
      "sample_event\<lparr>time := Some ''24:00''\<rparr>" "[]" sample_candidate "[]"]
    a b c d late_hour_rejected
  show ?thesis
    by (simp add: padStart_def s [OF e] f)
qed

section \<open>Slug assignment\<close>

subsection \<open>Lower case and white space\<close>

lemma code_toLowerChar:
  "code (toLowerChar c) =
     (if (65 \<le> code c \<and> code c \<le> 90) \<or> (192 \<le> code c \<and> code c \<le> 222 \<and> code c \<noteq> 215)
      then code c + 32 else code c)"
  using code_less_256 [of c] by (simp add: toLowerChar_def code_def of_char_of)


lemma isWhiteSpace_toLowerChar: "isWhiteSpace (toLowerChar c) = isWhiteSpace c"
  by (auto simp: isWhiteSpace_def code_toLowerChar)

lemma toLowerCase_trim: "toLowerCase (trim s) = trim (toLowerCase s)"
proof -
  have c: "isWhiteSpace \<circ> toLowerChar = isWhiteSpace"
    by (rule ext) (simp add: isWhiteSpace_toLowerChar)
  show ?thesis
    by (simp add: toLowerCase_def trim_def trimStart_def trimEnd_def dropWhile_map rev_map c)
qed

lemma trimStart_idem: "trimStart (trimStart s) = trimStart s"
  by (simp add: trimStart_def dropWhile_idem)

lemma trim_idem: "trim (trim s) = trim s"
proof -
  obtain a b where s: "s = a @ trim s @ b" and ws: "list_all isWhiteSpace a" "list_all isWhiteSpace b"
    using trim_decomposition by blast
  have "trim s = trim (a @ (trim s @ b))" using s by simp
  also have "\<dots> = trim (trim s @ b)" using ws(1) by (rule trim_prepend)
  also have "\<dots> = trim (trim s)" using ws(2) by (rule trim_append)
  finally show ?thesis by simp
qed

lemma slugify_trim: "slugify (trim t) = slugify t"
  by (simp add: slugify_def toLowerCase_trim trim_idem)

subsection \<open>The characters of a slug\<close>

lemma trimStart_no_space: "list_all (\<lambda>c. \<not> isWhiteSpace c) s \<Longrightarrow> trimStart s = s"
  by (cases s) (simp_all add: trimStart_def)

lemma trimEnd_no_space: "list_all (\<lambda>c. \<not> isWhiteSpace c) s \<Longrightarrow> trimEnd s = s"
  by (cases s rule: rev_cases) (simp_all add: trimEnd_def)

lemma slug_setter_canonical: "canonical s \<Longrightarrow> slug_setter s = s"
proof -
  assume c: "canonical s"
  then have "toLowerCase s = s"
    by (simp add: canonical_def toLowerCase_def list_all_iff map_idI)
  moreover have "list_all (\<lambda>c. \<not> isWhiteSpace c) s"
    using c by (simp add: canonical_def list_all_iff)
  ultimately show ?thesis
    by (simp add: slug_setter_def trim_def trimStart_no_space trimEnd_no_space)
qed






lemma hyphen_canonical_char: "\<not> isWhiteSpace CHR ''-'' \<and> toLowerChar CHR ''-'' = CHR ''-''"
  by (simp add: toLowerChar_def isWhiteSpace_def)


lemma digit_canonical_char:
  fixes d :: nat
  shows "d < 10 \<Longrightarrow> \<not> isWhiteSpace (char_of (48 + d)) \<and> toLowerChar (char_of (48 + d)) = char_of (48 + d)"
proof -
  assume "d < 10"
  then have c: "code (char_of (48 + d)) = 48 + d" by (simp add: code_def of_char_of)
  show ?thesis by (simp add: isWhiteSpace_def toLowerChar_def c) (use \<open>d < 10\<close> in arith)
qed

lemma canonical_numberToString: "canonical (numberToString n)"
proof (induction n rule: numberToString.induct)
  case (1 n)
  show ?case
  proof (cases "n < 10")
    case True
    then show ?thesis
      using digit_canonical_char [of n] by (simp add: numberToString.simps [of n] canonical_def)
  next
    case False
    with 1 have "canonical (numberToString (n div 10))" by simp
    then show ?thesis
      using False digit_canonical_char [of "n mod 10"]
      by (simp add: numberToString.simps [of n] canonical_def)
  qed
qed

lemma canonical_append: "canonical (a @ b) = (canonical a \<and> canonical b)"
  by (simp add: canonical_def)

lemma canonical_hyphen: "canonical ''-''"
  by (simp add: canonical_def toLowerChar_def isWhiteSpace_def)

lemma canonical_event: "canonical ''event''"
  by (simp add: canonical_def toLowerChar_def isWhiteSpace_def)

lemma slug_loop_first_free:
  assumes "c \<le> n"
    and "\<forall>j. c \<le> j \<and> j < n \<longrightarrow> exists_slug store (candidate_at first base j)"
    and "\<not> exists_slug store (candidate_at first base n)"
  shows "slug_loop store base c (candidate_at first base c) = candidate_at first base n"
  using assms
proof (induction "n - c" arbitrary: c)
  case 0
  then have "c = n" by simp
  with 0 show ?case by (simp add: slug_loop.simps [of store base n])
next
  case (Suc d)
  then have lt: "c < n" by simp
  with Suc.prems have ex: "exists_slug store (candidate_at first base c)" by simp
  have next_candidate: "base @ ''-'' @ numberToString (c + 1) = candidate_at first base (c + 1)"
    by (simp add: candidate_at_def)
  have "slug_loop store base (c + 1) (candidate_at first base (c + 1)) = candidate_at first base n"
  proof (rule Suc.hyps(1))
    show "d = n - (c + 1)" using Suc.hyps(2) by simp
    show "c + 1 \<le> n" using lt by simp
    show "\<forall>j. c + 1 \<le> j \<and> j < n \<longrightarrow> exists_slug store (candidate_at first base j)"
      using Suc.prems(2) by simp
    show "\<not> exists_slug store (candidate_at first base n)" by (rule Suc.prems(3))
  qed
  moreover have "slug_loop store base c (candidate_at first base c)
      = slug_loop store base (c + 1) (base @ ''-'' @ numberToString (c + 1))"
    using ex by (subst slug_loop.simps) simp
  ultimately show ?case by (simp only: next_candidate)
qed

lemma date_step_slug: "date_step isModified doc = Inr doc' \<Longrightarrow> slug doc' = slug doc"
  by (auto simp: date_step_def split: if_splits sum.splits)

lemma time_step_slug: "time_step isModified doc = Inr doc' \<Longrightarrow> slug doc' = slug doc"
  by (auto simp: time_step_def split: if_splits sum.splits)

lemma pre_validate_slug:
  assumes "pre_validate isModified store doc = Inr doc'"
  shows "slug doc' = slug (slug_step isModified store doc)"
proof -
  from assms obtain d where d: "date_step isModified (slug_step isModified store doc) = Inr d"
    and t: "time_step isModified d = Inr doc'"
    by (auto simp: pre_validate_def split: sum.splits)
  from time_step_slug [OF t] date_step_slug [OF d] show ?thesis by simp
qed

lemma slug_step_title:
  assumes "isModified ''title''"
  shows "slug (slug_step isModified store doc)
    = (let base = slugify (case title doc of None \<Rightarrow> [] | Some s \<Rightarrow> s)
       in Some (slug_setter (slug_loop store base 0 (if base = [] then ''event'' else base))))"
  using assms by (simp add: slug_step_def Let_def)

lemma new_Event_title: "title (new_Event obj) = map_option trim (string_path obj ''title'')"
  by (simp add: new_Event_def)

lemma Event_create_slug:
  assumes "obj ''title'' = Some (Str t)" and "Event_create store obj = Inr (doc, store')"
  shows "slug doc = Some (slug_setter (slug_loop store (slugify t) 0
            (if slugify t = [] then ''event'' else slugify t)))"
proof -
  from assms(2) have p: "pre_validate (\<lambda>path. obj path \<noteq> None) store (new_Event obj) = Inr doc"
    by (auto simp: Event_create_def split: sum.splits if_splits)
  have m: "(\<lambda>path. obj path \<noteq> None) ''title''" using assms(1) by simp
  have "title (new_Event obj) = Some (trim t)"
    using assms(1) by (simp add: new_Event_title string_path_def)
  then show ?thesis
    unfolding pre_validate_slug [OF p] slug_step_title [of "\<lambda>path. obj path \<noteq> None", OF m]
    by (simp add: Let_def slugify_trim)
qed





lemma created_docs_simps [simp]:
  "created_docs [] = []" "created_docs (Inl e # rs) = created_docs rs" "created_docs (Inr doc # rs) = doc # created_docs rs"
  by (simp_all add: created_docs_def)
















lemma slugify_sample: "slugify ''Cloud Next 2026!'' = ''cloud-next-2026''"
  by code_simp


lemma sample_title: "sample_candidate ''title'' = Some (Str ''Cloud Next 2026!'')"
  by code_simp




lemma Event_create_fallback_slug:
  assumes "obj ''title'' = Some (Str t)" and "slugify t = []"
    and "\<forall>j < n. exists_slug store (candidate_at ''event'' [] j)"
    and "\<not> exists_slug store (candidate_at ''event'' [] n)"
    and "Event_create store obj = Inr (doc, store')"
  shows "slug doc = Some (candidate_at ''event'' [] n)"
proof -
  have "slug_loop store [] 0 (candidate_at ''event'' [] 0) = candidate_at ''event'' [] n"
    by (rule slug_loop_first_free) (use assms(3,4) in simp_all)
  then have l: "slug_loop store [] 0 ''event'' = candidate_at ''event'' [] n"
    by (simp add: candidate_at_def)
  have "canonical (candidate_at ''event'' [] n)"
    using canonical_numberToString [of n] hyphen_canonical_char canonical_event
    by (simp add: candidate_at_def canonical_def)
  then have "slug_setter (candidate_at ''event'' [] n) = candidate_at ''event'' [] n"
    by (rule slug_setter_canonical)
  then show ?thesis
    using Event_create_slug [OF assms(1,5)] assms(2) l by simp
qed

text \<open>
  Claim C2, evaluated. A title of punctuation only has the empty base. Created first it
  gets the slug \<^verbatim>\<open>event\<close>; created when \<^verbatim>\<open>event\<close> is taken it gets \<^verbatim>\<open>-1\<close>, not
  \<^verbatim>\<open>event-1\<close>: the loop builds its candidates from the empty base, not from the fallback.
\<close>

theorem fallback_collision:
  "map (map_sum id slug) (fst (create_all [] [titled ''!!!'', titled ''???'']))
     = [Inr (Some ''event''), Inr (Some ''-1'')]"
  by code_simp

section \<open>The scenario of a creation\<close>

lemma invalid_paths_normalized:
  assumes "invalid_paths doc = []" and "d \<noteq> []" and "t \<noteq> []"
  shows "invalid_paths (doc\<lparr>slug := s, date := Some d, time := Some t\<rparr>) = []"
  using assms by (simp add: invalid_paths_def falsy_def split: if_splits)

lemma normalize_sample_date: "normalize_date (Some ''2026-03-10'') = Inr ''2026-03-10''"
  by code_simp

lemma normalize_sample_time: "normalize_time (Some ''9:05'') = Inr ''09:05''"
  by code_simp

lemma reject_short_minute: "normalize_time (Some ''9:5'') = Inl (Error ''Time must be in HH:MM format'')"
  by code_simp

lemma trim_sample_title: "trim ''Cloud Next 2026!'' = ''Cloud Next 2026!''"
  by code_simp

lemma slug_setter_sample: "slug_setter ''cloud-next-2026'' = ''cloud-next-2026''"
  by code_simp

lemma pre_validate_cloud_next:
  assumes "obj ''title'' = Some (Str ''Cloud Next 2026!'')"
    and "obj ''date'' = Some (Str ''2026-03-10'')"
    and "obj ''time'' = Some (Str t)"
    and "\<not> exists_slug store ''cloud-next-2026''"
  shows "pre_validate (\<lambda>path. obj path \<noteq> None) store (new_Event obj)
    = (case normalize_time (Some t) of
         Inl e \<Rightarrow> Inl e
       | Inr t' \<Rightarrow> Inr ((new_Event obj)\<lparr>slug := Some ''cloud-next-2026'',
                     date := Some ''2026-03-10'', time := Some t'\<rparr>))"
proof -
  let ?m = "\<lambda>path. obj path \<noteq> None"
  have f: "title (new_Event obj) = Some ''Cloud Next 2026!''"
    "date (new_Event obj) = Some ''2026-03-10''" "time (new_Event obj) = Some t"
    using assms(1-3) by (simp_all add: new_Event_def string_path_def trim_sample_title)
  have l: "slug_loop store ''cloud-next-2026'' 0 ''cloud-next-2026'' = ''cloud-next-2026''"
    using assms(4) by (subst slug_loop.simps) simp
  have 1: "slug_step ?m store (new_Event obj) = (new_Event obj)\<lparr>slug := Some ''cloud-next-2026''\<rparr>"
    using assms(1) by (simp add: slug_step_def f slugify_sample l slug_setter_sample)
  have 2: "date_step ?m ((new_Event obj)\<lparr>slug := Some ''cloud-next-2026''\<rparr>)
      = Inr ((new_Event obj)\<lparr>slug := Some ''cloud-next-2026'', date := Some ''2026-03-10''\<rparr>)"
    using assms(2) by (simp add: date_step_def f normalize_sample_date)
  have 3: "time_step ?m ((new_Event obj)\<lparr>slug := Some ''cloud-next-2026'', date := Some ''2026-03-10''\<rparr>)
      = (case normalize_time (Some t) of
         Inl e \<Rightarrow> Inl e
       | Inr t' \<Rightarrow> Inr ((new_Event obj)\<lparr>slug := Some ''cloud-next-2026'',
                     date := Some ''2026-03-10'', time := Some t'\<rparr>))"
    using assms(3) by (simp add: time_step_def f)
  show ?thesis by (simp only: pre_validate_def 1 2 3 sum.case)
qed

text \<open>
  Claim C3, amended. An event with the title ``Cloud Next 2026!'', the date 2026-03-10 and
  the time 9:05, whose other fields pass the validators, created on a store with no event
  of slug \<^verbatim>\<open>cloud-next-2026\<close>, is stored with that slug, the date 2026-03-10 and the time
  09:05. With the time 9:5 the creation fails with the error of the hook,
  \<^verbatim>\<open>Time must be in HH:MM format\<close>: the pattern asks for two minute digits.
\<close>

theorem cloud_next_creation:
  assumes "obj ''title'' = Some (Str ''Cloud Next 2026!'')"
    and "obj ''date'' = Some (Str ''2026-03-10'')"
    and "\<not> exists_slug store ''cloud-next-2026''"
  shows "(obj ''time'' = Some (Str ''9:05'') \<and> invalid_paths (new_Event obj) = [] \<longrightarrow>
      (\<exists>doc. Event_create store obj = Inr (doc, store @ [doc])
         \<and> slug doc = Some ''cloud-next-2026'' \<and> date doc = Some ''2026-03-10''
         \<and> time doc = Some ''09:05''))
    \<and> (obj ''time'' = Some (Str ''9:5'') \<longrightarrow>
      Event_create store obj = Inl (Thrown (Error ''Time must be in HH:MM format'')))"
proof (intro conjI impI)
  assume a: "obj ''time'' = Some (Str ''9:05'') \<and> invalid_paths (new_Event obj) = []"
  let ?doc = "(new_Event obj)\<lparr>slug := Some ''cloud-next-2026'',
                     date := Some ''2026-03-10'', time := Some ''09:05''\<rparr>"
  from a have p: "pre_validate (\<lambda>path. obj path \<noteq> None) store (new_Event obj) = Inr ?doc"
    using pre_validate_cloud_next [OF assms(1,2) _ assms(3), of "''9:05''"]
    by (simp add: normalize_sample_time)
  have v: "invalid_paths ?doc = []"
    using a by (intro invalid_paths_normalized) simp_all
  have u: "\<not> list_ex (\<lambda>e. slug e = slug ?doc) store"
    using assms(3) by (simp add: exists_slug_def)
  have "Event_create store obj = Inr (?doc, store @ [?doc])"
    unfolding Event_create_def p using v u by simp
  then show "\<exists>doc. Event_create store obj = Inr (doc, store @ [doc])
         \<and> slug doc = Some ''cloud-next-2026'' \<and> date doc = Some ''2026-03-10''
         \<and> time doc = Some ''09:05''"
    by (intro exI [of _ ?doc]) simp
next
  assume "obj ''time'' = Some (Str ''9:5'')"
  then have "pre_validate (\<lambda>path. obj path \<noteq> None) store (new_Event obj)
      = Inl (Error ''Time must be in HH:MM format'')"
    using pre_validate_cloud_next [OF assms(1,2) _ assms(3), of "''9:5''"]
    by (simp add: reject_short_minute)
  then show "Event_create store obj = Inl (Thrown (Error ''Time must be in HH:MM format''))"
    by (simp add: Event_create_def)
qed

text \<open>The creation of claim C3 as the claim has it, with the time 9:5, fails.\<close>

theorem short_minute_rejected:
  "Event_create [] (sample_candidate(''time'' \<mapsto> Str ''9:5''))
     = Inl (Thrown (Error ''Time must be in HH:MM format''))"
  by code_simp

lemma sample_facts:
  "sample_candidate ''date'' = Some (Str ''2026-03-10'')"
  "sample_candidate ''time'' = Some (Str ''9:05'')"
  "invalid_paths (new_Event sample_candidate) = []"
  by code_simp+

theorem cloud_next_creation_witness:
  "sample_candidate ''title'' = Some (Str ''Cloud Next 2026!'')
   \<and> sample_candidate ''date'' = Some (Str ''2026-03-10'')
   \<and> sample_candidate ''time'' = Some (Str ''9:05'')
   \<and> invalid_paths (new_Event sample_candidate) = []
   \<and> \<not> exists_slug [] ''cloud-next-2026''
   \<and> (\<exists>doc. Event_create [] sample_candidate = Inr (doc, [doc])
         \<and> slug doc = Some ''cloud-next-2026'' \<and> date doc = Some ''2026-03-10''
         \<and> time doc = Some ''09:05'')"
proof -
  have e: "\<not> exists_slug [] ''cloud-next-2026''" by (simp add: exists_slug_def)
  from cloud_next_creation [OF sample_title sample_facts(1) e] sample_facts(2,3)
  have "\<exists>doc. Event_create [] sample_candidate = Inr (doc, [] @ [doc])
         \<and> slug doc = Some ''cloud-next-2026'' \<and> date doc = Some ''2026-03-10''
         \<and> time doc = Some ''09:05''"
    by blast
  then show ?thesis using sample_title sample_facts e by simp
qed

section \<open>Date normalization\<close>

lemma DaysInYear_bounds: "365 \<le> DaysInYear y \<and> DaysInYear y \<le> 366"
  by (simp add: DaysInYear_def)

lemma DayFromYear_1970: "DayFromYear 1970 = 0"
  by (simp add: DayFromYear_def)

lemma DayFromYear_less: "DayFromYear y < DayFromYear (y + 1)"
  using DaysInYear_bounds [of y] by (simp add: DayFromYear_Suc)

lemma DayFromYear_mono_nat: "DayFromYear y \<le> DayFromYear (y + int n)"
proof (induction n)
  case 0
  then show ?case by simp
next
  case (Suc n)
  have e: "y + int (Suc n) = y + int n + 1" by simp
  have "DayFromYear (y + int n) < DayFromYear (y + int n + 1)" by (rule DayFromYear_less)
  with Suc show ?case unfolding e by linarith
qed

lemma DayFromYear_mono: "y \<le> z \<Longrightarrow> DayFromYear y \<le> DayFromYear z"
  using DayFromYear_mono_nat [of y "nat (z - y)"] by simp

lemma DayFromYear_strict: "y < z \<Longrightarrow> DayFromYear y < DayFromYear z"
  using DayFromYear_mono [of "y + 1" z] DayFromYear_less [of y] by simp

lemma DayFromYear_after_1970: "DayFromYear (1970 + int n) \<le> 366 * int n"
proof (induction n)
  case 0
  then show ?case by (simp add: DayFromYear_1970)
next
  case (Suc n)
  have e: "1970 + int (Suc n) = 1970 + int n + 1" by simp
  have "DayFromYear (1970 + int n + 1) = DayFromYear (1970 + int n) + DaysInYear (1970 + int n)"
    by (rule DayFromYear_Suc)
  with Suc DaysInYear_bounds [of "1970 + int n"] show ?case unfolding e by simp
qed

lemma DayFromYear_before_1970: "DayFromYear (1970 - int n) \<le> - 365 * int n"
proof (induction n)
  case 0
  then show ?case by (simp add: DayFromYear_1970)
next
  case (Suc n)
  have "DayFromYear (1970 - int (Suc n) + 1) = DayFromYear (1970 - int (Suc n)) + DaysInYear (1970 - int (Suc n))"
    by (rule DayFromYear_Suc)
  moreover have "1970 - int (Suc n) + 1 = 1970 - int n" by simp
  ultimately show ?case using Suc DaysInYear_bounds [of "1970 - int (Suc n)"] by simp
qed


lemma TimeFromYear_le_iff: "(TimeFromYear y \<le> t) = (DayFromYear y \<le> Day t)"
  unfolding TimeFromYear_def Day_def msPerDay_def by linarith

lemma year_upto_correct:
  assumes "TimeFromYear y \<le> t" and "TimeFromYear z \<le> t" and "t < TimeFromYear (z + 1)"
  shows "year_upto y t = z"
  using assms
proof (induction y t rule: year_upto.induct)
  case (1 y t)
  have yz: "y \<le> z"
  proof (rule ccontr)
    assume "\<not> y \<le> z"
    then have "z + 1 \<le> y" by simp
    then have "DayFromYear (z + 1) \<le> DayFromYear y" by (rule DayFromYear_mono)
    then have "TimeFromYear (z + 1) \<le> TimeFromYear y"
      by (simp add: TimeFromYear_def msPerDay_def)
    with 1(2,4) show False by simp
  qed
  show ?case
  proof (cases "TimeFromYear (y + 1) \<le> t")
    case True
    then have "year_upto (y + 1) t = z" using 1 by simp
    with True show ?thesis by (subst year_upto.simps) simp
  next
    case False
    have "y = z"
    proof (rule ccontr)
      assume "y \<noteq> z"
      with yz have "y + 1 \<le> z" by simp
      then have "DayFromYear (y + 1) \<le> DayFromYear z" by (rule DayFromYear_mono)
      then have "TimeFromYear (y + 1) \<le> TimeFromYear z"
        by (simp add: TimeFromYear_def msPerDay_def)
      with 1(3) False show False by simp
    qed
    with False show ?thesis by (subst year_upto.simps) simp
  qed
qed

lemma estimate_below:
  "DayFromYear (1970 + (if 0 \<le> d then d div 366 else d div 365)) \<le> d"
proof (cases "0 \<le> d")
  case True
  then have "0 \<le> d div 366" by simp
  then obtain n where n: "d div 366 = int n" using nonneg_int_cases by blast
  have "DayFromYear (1970 + int n) \<le> 366 * int n" by (rule DayFromYear_after_1970)
  also have "\<dots> \<le> d" using n by linarith
  finally show ?thesis using True n by simp
next
  case False
  then have "d div 365 \<le> 0" by linarith
  then obtain n where n: "d div 365 = - int n" using nonpos_int_cases by blast
  have "DayFromYear (1970 - int n) \<le> - 365 * int n" by (rule DayFromYear_before_1970)
  also have "\<dots> \<le> d" using n by linarith
  finally show ?thesis using False n by simp
qed

lemma YearFromTime_eq:
  assumes "DayFromYear z \<le> Day t" and "Day t < DayFromYear (z + 1)"
  shows "YearFromTime t = z"
  unfolding YearFromTime_def
proof (rule year_upto_correct)
  show "TimeFromYear (1970 + (if 0 \<le> Day t then Day t div 366 else Day t div 365)) \<le> t"
    unfolding TimeFromYear_le_iff by (rule estimate_below)
  show "TimeFromYear z \<le> t" unfolding TimeFromYear_le_iff by (rule assms(1))
  show "t < TimeFromYear (z + 1)"
    using assms(2) TimeFromYear_le_iff [of "z + 1" t] by simp
qed

lemma DaysInYear_leap: "DaysInYear y = (if leap_year y then 366 else 365)"
  using mod_100_4 [of y] mod_400_100 [of y] by (auto simp: DaysInYear_def leap_year_def)

lemma Day_of_days: "Day (msPerDay * n) = n"
  by (simp add: Day_def msPerDay_def)

lemma MakeDay_month:
  assumes "0 \<le> m" and "m \<le> 11"
  shows "MakeDay y m d = DayFromYear y + month_start m (if leap_year y then 1 else 0) + d - 1"
proof -
  have "m div 12 = 0" "m mod 12 = m" using assms by simp_all
  moreover have "TimeFromYear y + msPerDay * k = msPerDay * (DayFromYear y + k)" for k
    by (simp add: TimeFromYear_def algebra_simps)
  ultimately show ?thesis
    by (simp add: MakeDay_def Let_def Day_of_days DaysInYear_leap)
qed

lemma month_cases:
  assumes "0 \<le> (m::int)" and "m \<le> 11"
  shows "m = 0 \<or> m = 1 \<or> m = 2 \<or> m = 3 \<or> m = 4 \<or> m = 5 \<or> m = 6 \<or> m = 7 \<or> m = 8
    \<or> m = 9 \<or> m = 10 \<or> m = 11"
  using assms by arith

text \<open>The calendar date of day \<open>d\<close> of month \<open>m\<close> (0 to 11) of year \<open>y\<close>, as the Date
  functions read it back.\<close>

lemma decode_day:
  assumes m: "0 \<le> m" "m \<le> 11" and d: "1 \<le> d" "d \<le> 31"
    and t: "t = MakeDate (MakeDay y m d) 0"
  shows "YearFromTime t = y"
    and "(MonthFromTime t = m \<and> DateFromTime t = d) = (d \<le> days_in_month y (m + 1))"
proof -
  define l :: int where "l = (if leap_year y then 1 else 0)"
  define w where "w = month_start m l + d - 1"
  have l01: "l = 0 \<or> l = 1" by (simp add: l_def)
  have day: "Day t = DayFromYear y + w"
    using MakeDay_month [OF m, of y d]
    by (simp add: t MakeDate_def w_def l_def Day_def msPerDay_def)
  have w0: "0 \<le> w" using m d l01 by (auto simp: w_def month_start_def)
  have w1: "w < 365 + l" using month_cases [OF m] d l01 by (auto simp: w_def month_start_def)
  have diy: "DaysInYear y = 365 + l" by (simp add: DaysInYear_leap l_def)
  show y: "YearFromTime t = y"
    by (rule YearFromTime_eq) (use w0 w1 in \<open>simp_all add: day DayFromYear_Suc diy\<close>)
  have leap: "InLeapYear t = l" by (simp add: InLeapYear_def y DaysInYear_leap l_def)
  have dwy: "DayWithinYear t = w" by (simp add: DayWithinYear_def y day)
  have dim: "days_in_month y (m + 1) =
      (if m = 1 then 28 + l else if m = 3 \<or> m = 5 \<or> m = 8 \<or> m = 10 then 30 else 31)"
    by (auto simp: days_in_month_def l_def)
  have mft: "MonthFromTime t =
     (if w < 31 then 0 else if w < 59 + l then 1 else if w < 90 + l then 2
      else if w < 120 + l then 3 else if w < 151 + l then 4 else if w < 181 + l then 5
      else if w < 212 + l then 6 else if w < 243 + l then 7 else if w < 273 + l then 8
      else if w < 304 + l then 9 else if w < 334 + l then 10 else 11)"
    by (simp add: MonthFromTime_def Let_def leap dwy)
  have dft: "DateFromTime t =
     (let k = MonthFromTime t in
      if k = 0 then w + 1 else if k = 1 then w - 30 else if k = 2 then w - 58 - l
      else if k = 3 then w - 89 - l else if k = 4 then w - 119 - l
      else if k = 5 then w - 150 - l else if k = 6 then w - 180 - l
      else if k = 7 then w - 211 - l else if k = 8 then w - 242 - l
      else if k = 9 then w - 272 - l else if k = 10 then w - 303 - l else w - 333 - l)"
    by (simp add: DateFromTime_def Let_def leap dwy)
  from month_cases [OF m] l01
  show "(MonthFromTime t = m \<and> DateFromTime t = d) = (d \<le> days_in_month y (m + 1))"
    unfolding dft mft dim w_def Let_def
    by (elim disjE) (use d in \<open>simp_all add: month_start_def\<close>)
qed

lemma length_4_iff: "(length xs = 4) = (\<exists>a b c d. xs = [a, b, c, d])"
proof
  assume "length xs = 4"
  then show "\<exists>a b c d. xs = [a, b, c, d]"
    by (cases xs; cases "tl xs"; cases "tl (tl xs)"; cases "tl (tl (tl xs))") auto
qed auto

lemma decimal_2: "decimal [a, b] = 10 * digit_val a + digit_val b"
  by (simp add: decimal_def)

lemma decimal_4: "decimal [a, b, c, d] = 1000 * digit_val a + 100 * digit_val b + 10 * digit_val c + digit_val d"
  by (simp add: decimal_def)

lemma month_text_2:
  "(isDigit a \<and> isDigit b \<and> 1 \<le> decimal [a, b] \<and> decimal [a, b] \<le> 12) =
   ((a = CHR ''0'' \<and> inRange CHR ''1'' CHR ''9'' b) \<or> (a = CHR ''1'' \<and> inRange CHR ''0'' CHR ''2'' b))"
  by (auto simp: decimal_2 digit_val_def isDigit_def inRange_def eq_CHR_iff)

lemma day_text_2:
  "(isDigit a \<and> isDigit b \<and> 1 \<le> decimal [a, b] \<and> decimal [a, b] \<le> 31) =
   ((a = CHR ''0'' \<and> inRange CHR ''1'' CHR ''9'' b)
    \<or> ((a = CHR ''1'' \<or> a = CHR ''2'') \<and> isDigit b)
    \<or> (a = CHR ''3'' \<and> (b = CHR ''0'' \<or> b = CHR ''1'')))"
  by (auto simp: decimal_2 digit_val_def isDigit_def inRange_def eq_CHR_iff)

lemma dateRegex_match_syntax:
  assumes "date_syntax ys ms ds"
  shows "dateRegex_match (ys @ ''-'' @ ms @ ''-'' @ ds) = Some (ys @ ''-'' @ ms @ ''-'' @ ds, ys, ms, ds)"
proof -
  from assms obtain y1 y2 y3 y4 where ys: "ys = [y1, y2, y3, y4]"
    by (auto simp: date_syntax_def length_4_iff)
  from assms obtain m1 m2 where ms: "ms = [m1, m2]"
    by (auto simp: date_syntax_def length_2_iff)
  from assms obtain d1 d2 where ds: "ds = [d1, d2]"
    by (auto simp: date_syntax_def length_2_iff)
  have y: "isDigit y1 \<and> isDigit y2 \<and> isDigit y3 \<and> isDigit y4"
    using assms by (simp add: date_syntax_def ys)
  have m: "(m1 = CHR ''0'' \<and> inRange CHR ''1'' CHR ''9'' m2) \<or> (m1 = CHR ''1'' \<and> inRange CHR ''0'' CHR ''2'' m2)"
    using assms month_text_2 [of m1 m2] by (simp add: date_syntax_def ms)
  have d: "(d1 = CHR ''0'' \<and> inRange CHR ''1'' CHR ''9'' d2)
    \<or> ((d1 = CHR ''1'' \<or> d1 = CHR ''2'') \<and> isDigit d2)
    \<or> (d1 = CHR ''3'' \<and> (d2 = CHR ''0'' \<or> d2 = CHR ''1''))"
    using assms day_text_2 [of d1 d2] by (simp add: date_syntax_def ds)
  have "dateRegex_match [y1, y2, y3, y4, CHR ''-'', m1, m2, CHR ''-'', d1, d2]
      = Some ([y1, y2, y3, y4, CHR ''-'', m1, m2, CHR ''-'', d1, d2], [y1, y2, y3, y4], [m1, m2], [d1, d2])"
    using y m d by (simp only: dateRegex_match.simps) simp
  then show ?thesis by (simp add: ys ms ds)
qed

lemma parseInt_digits: "list_all isDigit s \<Longrightarrow> s \<noteq> [] \<Longrightarrow> parseInt s = Some (int (decimal s))"
proof -
  assume a: "list_all isDigit s" "s \<noteq> []"
  then have tw: "takeWhile isDigit s = s" by (simp add: list_all_iff)
  show ?thesis unfolding parseInt_def Let_def tw using a(2) by simp
qed

lemma digit_val_le_9: "isDigit c \<Longrightarrow> digit_val c \<le> 9"
  by (auto simp: isDigit_def digit_val_def)

lemma decimal_year_bound: "length ys = 4 \<Longrightarrow> list_all isDigit ys \<Longrightarrow> decimal ys \<le> 9999"
proof -
  assume a: "length ys = 4" "list_all isDigit ys"
  then obtain a b c d where ys: "ys = [a, b, c, d]" by (auto simp: length_4_iff)
  with a(2) have "digit_val a \<le> 9" "digit_val b \<le> 9" "digit_val c \<le> 9" "digit_val d \<le> 9"
    by (simp_all add: digit_val_le_9)
  then show ?thesis unfolding ys decimal_4 by linarith
qed

lemma DayFromYear_range:
  assumes "0 \<le> y" and "y \<le> 9999"
  shows "- 719528 \<le> DayFromYear y" and "DayFromYear y \<le> 2932897"
proof -
  have a: "DayFromYear 0 \<le> DayFromYear y" using assms(1) by (rule DayFromYear_mono)
  have b: "DayFromYear y \<le> DayFromYear 9999" using assms(2) by (rule DayFromYear_mono)
  have "DayFromYear 0 = - 719528" "DayFromYear 9999 = 2932532" by (simp_all add: DayFromYear_def)
  with a b show "- 719528 \<le> DayFromYear y" "DayFromYear y \<le> 2932897" by simp_all
qed


text \<open>
  What the date step does with a text \<open>YYYY-MM-DD\<close> of the syntactic pattern: it stores the
  text back when the day exists in that month of that year and the year is 0100 or later,
  and throws the format error otherwise. So every impossible day is rejected, and so is
  every date of the years 0000 to 0099, which \<^verbatim>\<open>Date.UTC\<close> reads as 1900 to 1999.
\<close>

lemma normalize_date_calendar:
  assumes "date_syntax ys ms ds"
  shows "normalize_date (Some (ys @ ''-'' @ ms @ ''-'' @ ds)) =
     (if 100 \<le> decimal ys
         \<and> int (decimal ds) \<le> days_in_month (int (decimal ys)) (int (decimal ms))
      then Inr (ys @ ''-'' @ ms @ ''-'' @ ds) else Inl date_error)"
proof -
  let ?s = "ys @ ''-'' @ ms @ ''-'' @ ds"
  let ?year = "int (decimal ys)" and ?month = "int (decimal ms)" and ?day = "int (decimal ds)"
  let ?Y = "MakeFullYear ?year"
  let ?t = "MakeDate (MakeDay ?Y (?month - 1) ?day) 0"
  from assms have ne: "ys \<noteq> []" "ms \<noteq> []" "ds \<noteq> []" by (auto simp: date_syntax_def)
  have p: "parseInt ys = Some ?year" "parseInt ms = Some ?month" "parseInt ds = Some ?day"
    using assms ne by (simp_all add: date_syntax_def parseInt_digits)
  have yb: "0 \<le> ?year" "?year \<le> 9999"
    using assms decimal_year_bound [of ys] by (simp_all add: date_syntax_def)
  have Yb: "0 \<le> ?Y" "?Y \<le> 9999" using yb by (auto simp: MakeFullYear_def)
  have m: "0 \<le> ?month - 1" "?month - 1 \<le> 11" using assms by (simp_all add: date_syntax_def)
  have d: "1 \<le> ?day" "?day \<le> 31" using assms by (simp_all add: date_syntax_def)
  have dec: "YearFromTime ?t = ?Y"
    "(MonthFromTime ?t = ?month - 1 \<and> DateFromTime ?t = ?day) = (?day \<le> days_in_month ?Y ?month)"
    using decode_day [OF m d refl, of ?Y] by simp_all
  have clip: "Date_UTC ?year (?month - 1) ?day = Some ?t"
  proof -
    define l :: int where "l = (if leap_year ?Y then 1 else 0)"
    have day: "MakeDay ?Y (?month - 1) ?day = DayFromYear ?Y + month_start (?month - 1) l + ?day - 1"
      unfolding l_def by (rule MakeDay_month [OF m])
    have ms: "0 \<le> month_start (?month - 1) l" "month_start (?month - 1) l \<le> 335"
      by (auto simp: month_start_def l_def)
    have "- 719528 \<le> MakeDay ?Y (?month - 1) ?day" "MakeDay ?Y (?month - 1) ?day \<le> 2933263"
      using DayFromYear_range [OF Yb] ms d unfolding day by linarith+
    then have "\<bar>?t\<bar> \<le> 8640000000000000"
      by (simp add: MakeDate_def msPerDay_def)
    then show ?thesis by (simp add: Date_UTC_def TimeClip_def)
  qed
  have full: "(?Y = ?year) = (100 \<le> decimal ys)"
    using yb by (auto simp: MakeFullYear_def)
  have res: "normalize_date (Some ?s) =
      (if YearFromTime ?t \<noteq> ?year \<or> MonthFromTime ?t \<noteq> ?month - 1 \<or> DateFromTime ?t \<noteq> ?day
       then Inl date_error else Inr ?s)"
    by (simp add: normalize_date_def dateRegex_match_syntax [OF assms] p clip del: append.simps)
  show ?thesis
  proof (cases "100 \<le> decimal ys")
    case True
    then have "?Y = ?year" using full by simp
    then show ?thesis unfolding res using dec True by auto
  next
    case False
    then have "YearFromTime ?t \<noteq> ?year" using full dec(1) by simp
    then show ?thesis unfolding res using False by simp
  qed
qed

text \<open>
  Claim C5, evaluated. The first of January of the year 0050 is a day of the calendar and
  matches the pattern, yet the date step rejects it: \<^verbatim>\<open>Date.UTC(50, 0, 1)\<close> is the first of
  January 1950, whose year differs from the one parsed. The impossible days 2023-02-30
  and 2023-04-31 are rejected as the claim says, and 2024-02-29 is stored back.
\<close>

theorem year_50_rejected:
  "date_step (\<lambda>path. path = ''date'') (sample_event\<lparr>date := Some ''0050-01-01''\<rparr>)
     = Inl (Error ''Invalid date format - expected YYYY-MM-DD'')
   \<and> int (decimal ''01'') \<le> days_in_month (int (decimal ''0050'')) (int (decimal ''01''))
   \<and> Date_UTC 50 0 1 = Date_UTC 1950 0 1
   \<and> date_step (\<lambda>path. path = ''date'') (sample_event\<lparr>date := Some ''2023-02-30''\<rparr>)
     = Inl (Error ''Invalid date format - expected YYYY-MM-DD'')
   \<and> date_step (\<lambda>path. path = ''date'') (sample_event\<lparr>date := Some ''2023-04-31''\<rparr>)
     = Inl (Error ''Invalid date format - expected YYYY-MM-DD'')
   \<and> date_step (\<lambda>path. path = ''date'') (sample_event\<lparr>date := Some ''2024-02-29''\<rparr>)
     = Inr (sample_event\<lparr>date := Some ''2024-02-29''\<rparr>)"
proof -
  have s: "date_syntax ''0050'' ''01'' ''01''"
    by (simp add: date_syntax_def isDigit_def decimal_def digit_val_def)
  have y: "decimal ''0050'' = 50" by (simp add: decimal_def digit_val_def)
  have 1: "normalize_date (Some ''0050-01-01'') = Inl (Error ''Invalid date format - expected YYYY-MM-DD'')"
    using normalize_date_calendar [OF s] by (simp add: y date_error_def)
  have 2: "int (decimal ''01'') \<le> days_in_month (int (decimal ''0050'')) (int (decimal ''01''))"
    by (simp add: decimal_def digit_val_def days_in_month_def)
  have 3: "Date_UTC 50 0 1 = Date_UTC 1950 0 1"
    by (simp add: Date_UTC_def MakeFullYear_def)
  have 4: "normalize_date (Some ''2023-02-30'') = Inl (Error ''Invalid date format - expected YYYY-MM-DD'')"
    "normalize_date (Some ''2023-04-31'') = Inl (Error ''Invalid date format - expected YYYY-MM-DD'')"
    "normalize_date (Some ''2024-02-29'') = Inr ''2024-02-29''"
    by code_simp+
  show ?thesis
    using 2 3 by (simp add: date_step_def 1 4)
qed

end
